theory Spec2Isabelle
  imports Complex_Main
begin

section \<open>JavaScript values\<close>

text \<open>
  The oracle client stores whatever the server's JSON body parses to, without validating
  it, so the model keeps untyped JavaScript values. Numbers are modelled as reals: the
  code only passes them along and tests them for falsiness (zero).
  An object is the list of its own properties.
\<close>

datatype jsval =
    JUndefined
  | JNull
  | JBool bool
  | JNum real
  | JStr string
  | JArr "jsval list"
  | JObj "(string \<times> jsval) list"

text \<open>
  The error value of a failed property read on \<open>null\<close> or \<open>undefined\<close>. The message
  text is engine specific; the code only logs it.
\<close>

definition TypeError :: "string \<Rightarrow> jsval" where
  "TypeError msg = JObj [(''name'', JStr ''TypeError''), (''message'', JStr msg)]"

text \<open>
  Reading a property \<open>v.name\<close>. Only the names \<open>value\<close>, \<open>currency\<close> and \<open>message\<close>
  are read by the code; none of them is defined on a built-in prototype, so on anything
  but an object with that own property the read yields \<open>undefined\<close>, and on
  \<open>null\<close>/\<open>undefined\<close> it throws.
\<close>

fun get_own :: "jsval \<Rightarrow> string \<Rightarrow> jsval" where
  "get_own (JObj fs) name = (case map_of fs name of Some x \<Rightarrow> x | None \<Rightarrow> JUndefined)"
| "get_own _ name = JUndefined"

fun read_prop :: "jsval \<Rightarrow> string \<Rightarrow> jsval + jsval" where
  "read_prop JUndefined name = Inl (TypeError ''Cannot read properties of undefined'')"
| "read_prop JNull name = Inl (TypeError ''Cannot read properties of null'')"
| "read_prop v name = Inr (get_own v name)"

text \<open>Optional chaining \<open>v?.name\<close>.\<close>

fun opt_prop :: "jsval \<Rightarrow> string \<Rightarrow> jsval" where
  "opt_prop JUndefined name = JUndefined"
| "opt_prop JNull name = JUndefined"
| "opt_prop v name = get_own v name"

fun truthy :: "jsval \<Rightarrow> bool" where
  "truthy JUndefined = False"
| "truthy JNull = False"
| "truthy (JBool b) = b"
| "truthy (JNum x) = (x \<noteq> 0)"
| "truthy (JStr s) = (s \<noteq> [])"
| "truthy (JArr _) = True"
| "truthy (JObj _) = True"

text \<open>The operator \<open>a || b\<close>.\<close>

definition js_or :: "jsval \<Rightarrow> jsval \<Rightarrow> jsval" where
  "js_or a b = (if truthy a then a else b)"

section \<open>The Map holding the currency cache\<close>

text \<open>
  A JavaScript \<open>Map\<close> keeps its entries in insertion order; \<open>set\<close> on a present key
  replaces the value in place. Primitive keys compare by value, objects and arrays by
  identity. Every object or array that reaches the cache as a key is a fresh result of
  JSON parsing, hence never identical to a stored key, and the code looks entries up with
  string keys only.
\<close>

type_synonym cache = "(jsval \<times> jsval) list"

fun is_ref :: "jsval \<Rightarrow> bool" where
  "is_ref (JArr _) = True"
| "is_ref (JObj _) = True"
| "is_ref _ = False"

definition same_key :: "jsval \<Rightarrow> jsval \<Rightarrow> bool" where
  "same_key stored k = (\<not> is_ref k \<and> stored = k)"

fun map_has :: "cache \<Rightarrow> jsval \<Rightarrow> bool" where
  "map_has [] k = False"
| "map_has ((k', v') # m) k = (same_key k' k \<or> map_has m k)"

fun map_get :: "cache \<Rightarrow> jsval \<Rightarrow> jsval" where
  "map_get [] k = JUndefined"
| "map_get ((k', v') # m) k = (if same_key k' k then v' else map_get m k)"

fun map_set :: "jsval \<Rightarrow> jsval \<Rightarrow> cache \<Rightarrow> cache" where
  "map_set k v [] = [(k, v)]"
| "map_set k v ((k', v') # m) =
     (if same_key k' k then (k', v) # m else (k', v') # map_set k v m)"

definition map_values :: "cache \<Rightarrow> jsval list" where
  "map_values m = map snd m"

section \<open>Oracle state and its environment\<close>

text \<open>The constants of the module.\<close>

definition ORACLE_BASE :: string where
  "ORACLE_BASE = ''/oracle/api/v1''"

definition ORACLE_ENABLED :: bool where
  "ORACLE_ENABLED = False"

definition ORACLE_RETRY_LIMIT :: nat where
  "ORACLE_RETRY_LIMIT = 3"

definition FALLBACK_CURRENCIES :: "string list" where
  "FALLBACK_CURRENCIES = [''usd'', ''eur'', ''gbp'', ''btc'']"

text \<open>The fields of an \<open>Oracle\<close> instance.\<close>

record Oracle =
  mapCurrencies :: cache
  fLoadedCurrencies :: bool
  nOracleFailures :: nat
  fOracleDisabled :: bool

text \<open>
  The reason handed to the failure bookkeeping: a fixed text, the template
  \<open>HTTP <status> on <endpoint>\<close>, or the \<open>message\<close> of a caught error.
\<close>

datatype reason =
    Reason_text string
  | Reason_http nat string
  | Reason_value jsval

text \<open>
  What \<open>debugWarn(DebugTopics.NET, ...)\<close> is called with: the two templates of the
  bookkeeping, a plain text, or a caught error value.
\<close>

datatype warning =
    Warn_disabled reason
  | Warn_failed nat nat reason
  | Warn_text string
  | Warn_value jsval

text \<open>An emission on the event bus: the event name and the payload, if one is passed.\<close>

datatype event = Event string "cache option"

text \<open>
  Everything outside the instance that the code touches: the URLs handed to \<open>fetch\<close>,
  the diagnostics given to \<open>debugWarn\<close>, the events emitted on the event bus, the
  durations slept, and the clock read by \<open>Date.now()\<close> (milliseconds).
\<close>

record world =
  requests :: "string list"
  warnings :: "warning list"
  emitted :: "event list"
  slept :: "nat list"
  clock_ms :: int

type_synonym state = "Oracle \<times> world"

text \<open>
  The outcome of one \<open>fetch\<close>: the promise rejects with an error, or resolves with a
  response, whose \<open>json()\<close> in turn rejects (the body is no JSON) or yields a value.
\<close>

datatype body = Body_invalid jsval | Body_json jsval

record response =
  status :: nat
  body :: body

datatype fetch_result = Fetch_rejected jsval | Fetch_response response

text \<open>\<open>Response.ok\<close> of the Fetch standard: the status is in the range 200 to 299.\<close>

definition ok :: "response \<Rightarrow> bool" where
  "ok r = (200 \<le> status r \<and> status r \<le> 299)"

text \<open>
  The server: what a request answers, given the requests made before it and its URL.
\<close>

type_synonym server = "string list \<Rightarrow> string \<Rightarrow> fetch_result"

definition fetch :: "server \<Rightarrow> string \<Rightarrow> world \<Rightarrow> fetch_result \<times> world" where
  "fetch srv url w = (srv (requests w) url, w\<lparr>requests := requests w @ [url]\<rparr>)"

text \<open>
  Modelled from the spec: \<open>debugWarn\<close> of \<open>debug.js\<close> is not among the sources. It is
  a sink for diagnostics, informational only: the warning is recorded and nothing else
  happens.
\<close>

definition debugWarn :: "warning \<Rightarrow> world \<Rightarrow> world" where
  "debugWarn x w = w\<lparr>warnings := warnings w @ [x]\<rparr>"

text \<open>
  Modelled from the spec: \<open>getEventEmitter\<close> of \<open>event_bus.js\<close> is not among the
  sources. The bus is taken as an opaque publish and subscribe mechanism: \<open>emit\<close> records
  the event and returns.
\<close>

definition emit :: "event \<Rightarrow> world \<Rightarrow> world" where
  "emit e w = w\<lparr>emitted := emitted w @ [e]\<rparr>"

text \<open>
  Modelled from the spec: \<open>sleep\<close> of \<open>utils.js\<close> is not among the sources. It
  suspends the caller for the given number of milliseconds; for the oracle, whose calls
  run one after the other, that is the duration noted and the clock advanced.
\<close>

definition sleep :: "nat \<Rightarrow> world \<Rightarrow> world" where
  "sleep ms w = w\<lparr>slept := slept w @ [ms], clock_ms := clock_ms w + int ms\<rparr>"

section \<open>The Oracle class\<close>

text \<open>
  The private methods. \<open>#ensureFallbackCurrencies\<close> reads the clock once and walks
  through \<open>FALLBACK_CURRENCIES\<close>; \<open>seed_fallback\<close> is that loop.
\<close>

definition markOracleSuccess :: "Oracle \<Rightarrow> Oracle" where
  "markOracleSuccess ora = ora\<lparr>nOracleFailures := 0\<rparr>"

definition fallback_record :: "string \<Rightarrow> int \<Rightarrow> jsval" where
  "fallback_record currency now =
     JObj [(''currency'', JStr currency), (''value'', JNum 0),
           (''last_updated'', JNum (of_int now))]"

fun seed_fallback :: "int \<Rightarrow> string list \<Rightarrow> cache \<Rightarrow> cache" where
  "seed_fallback now [] m = m"
| "seed_fallback now (currency # cs) m =
     seed_fallback now cs
       (if \<not> map_has m (JStr currency)
        then map_set (JStr currency) (fallback_record currency now) m
        else m)"

definition ensureFallbackCurrencies :: "state \<Rightarrow> state" where
  "ensureFallbackCurrencies s =
     (case s of (ora, w) \<Rightarrow>
        let now = clock_ms w div 1000
        in (ora\<lparr>mapCurrencies := seed_fallback now FALLBACK_CURRENCIES (mapCurrencies ora)\<rparr>, w))"

definition disableOracle :: "reason \<Rightarrow> state \<Rightarrow> state" where
  "disableOracle rsn s =
     (case s of (ora, w) \<Rightarrow>
        if fOracleDisabled ora then s
        else
          (case ensureFallbackCurrencies (ora\<lparr>fOracleDisabled := True\<rparr>, w) of (ora2, w2) \<Rightarrow>
             (ora2\<lparr>fLoadedCurrencies := True\<rparr>, debugWarn (Warn_disabled rsn) w2)))"

definition markOracleFailure :: "reason \<Rightarrow> state \<Rightarrow> state" where
  "markOracleFailure rsn s =
     (case s of (ora, w) \<Rightarrow>
        let ora1 = ora\<lparr>nOracleFailures := nOracleFailures ora + 1\<rparr>;
            w1 = debugWarn (Warn_failed (nOracleFailures ora1) ORACLE_RETRY_LIMIT rsn) w
        in if nOracleFailures ora1 \<ge> ORACLE_RETRY_LIMIT
           then disableOracle rsn (ora1, w1)
           else (ora1, w1))"

text \<open>The field initialisers: an empty cache, nothing loaded, no failure, not disabled.\<close>

definition Oracle_init :: Oracle where
  "Oracle_init =
     \<lparr>mapCurrencies = [], fLoadedCurrencies = False, nOracleFailures = 0,
      fOracleDisabled = False\<rparr>"

text \<open>
  The constructor, with the module constant \<open>ORACLE_ENABLED\<close> as a parameter;
  \<open>Oracle_new\<close> is \<open>new Oracle()\<close> of this source. It logs nothing.
\<close>

definition Oracle_constructor :: "bool \<Rightarrow> world \<Rightarrow> state" where
  "Oracle_constructor enabled w =
     (if \<not> enabled
      then (case ensureFallbackCurrencies (Oracle_init\<lparr>fOracleDisabled := True\<rparr>, w) of
              (ora, w2) \<Rightarrow> (ora\<lparr>fLoadedCurrencies := True\<rparr>, w2))
      else (Oracle_init, w))"

definition Oracle_new :: "world \<Rightarrow> state" where
  "Oracle_new w = Oracle_constructor ORACLE_ENABLED w"

text \<open>
  The module-level singleton \<open>cOracle = new Oracle()\<close>: the instance constructed when the
  module is loaded, in the environment of that moment.
\<close>

definition cOracle :: "world \<Rightarrow> state" where
  "cOracle w = Oracle_new w"

text \<open>
  The public methods. A currency code is a string, as the source's documentation of the
  parameter says. The asynchronous methods take the server and the state before the call
  and give the settled promise, \<open>Inl\<close> a rejection and \<open>Inr\<close> a fulfilment, with the
  state after the call; each call runs to its end before another starts.
\<close>

definition getCachedPrice :: "string \<Rightarrow> Oracle \<Rightarrow> jsval" where
  "getCachedPrice strCurrency ora =
     js_or (opt_prop (map_get (mapCurrencies ora) (JStr strCurrency)) ''value'') (JNum 0)"

definition getCachedCurrencies :: "Oracle \<Rightarrow> jsval" where
  "getCachedCurrencies ora = JArr (map_values (mapCurrencies ora))"

text \<open>
  \<open>String.prototype.toUpperCase\<close> on ASCII letters; currency codes are taken to be
  ASCII, other characters are left as they are.
\<close>

definition upper_char :: "char \<Rightarrow> char" where
  "upper_char c =
     (case map_of (zip ''abcdefghijklmnopqrstuvwxyz'' ''ABCDEFGHIJKLMNOPQRSTUVWXYZ'') c of
        Some u \<Rightarrow> u
      | None \<Rightarrow> c)"

definition toUpperCase :: "string \<Rightarrow> string" where
  "toUpperCase s = map upper_char s"

definition price_url :: "string \<Rightarrow> string" where
  "price_url strCurrency = ORACLE_BASE @ ''/price/'' @ strCurrency"

definition currencies_url :: string where
  "currencies_url = ORACLE_BASE @ ''/currencies''"

text \<open>
  The body of the \<open>try\<close> block of \<open>getPrice\<close>: \<open>Inl\<close> is a thrown error, which leaves
  the mutations made before the throw in place.
\<close>

definition getPrice_try :: "server \<Rightarrow> string \<Rightarrow> state \<Rightarrow> (jsval + jsval) \<times> state" where
  "getPrice_try srv strCurrency s =
     (case s of (ora, w) \<Rightarrow>
        (case fetch srv (price_url strCurrency) w of (res, w1) \<Rightarrow>
           (case res of
              Fetch_rejected e \<Rightarrow> (Inl e, (ora, w1))
            | Fetch_response cReq \<Rightarrow>
                if \<not> ok cReq then
                  (if status cReq = 404 then
                     (case disableOracle (Reason_text ''oracle route not found (404)'') (ora, w1) of
                        (ora2, w2) \<Rightarrow> (Inr (getCachedPrice strCurrency ora2), (ora2, w2)))
                   else
                     (case markOracleFailure (Reason_http (status cReq) ''price'') (ora, w1) of
                        (ora2, w2) \<Rightarrow> (Inr (getCachedPrice strCurrency ora2), (ora2, w2))))
                else
                  (case body cReq of
                     Body_invalid e \<Rightarrow> (Inl e, (ora, w1))
                   | Body_json cCurrency \<Rightarrow>
                       let ora2 = markOracleSuccess ora;
                           ora3 = ora2\<lparr>mapCurrencies :=
                                    map_set (JStr strCurrency) cCurrency (mapCurrencies ora2)\<rparr>
                       in (read_prop cCurrency ''value'', (ora3, w1))))))"

definition getPrice :: "server \<Rightarrow> string \<Rightarrow> state \<Rightarrow> (jsval + jsval) \<times> state" where
  "getPrice srv strCurrency s =
     (if fOracleDisabled (fst s) then (Inr (getCachedPrice strCurrency (fst s)), s)
      else
        (case getPrice_try srv strCurrency s of
           (Inr v, s1) \<Rightarrow> (Inr v, s1)
         | (Inl e, (ora1, w1)) \<Rightarrow>
             let w2 = debugWarn (Warn_text (''Oracle: Failed to fetch '' @
                                   toUpperCase strCurrency @ '' price!'')) w1;
                 w3 = debugWarn (Warn_value e) w2
             in (case markOracleFailure
                        (Reason_value (js_or (opt_prop e ''message'') (JStr ''price fetch failed'')))
                        (ora1, w3) of
                   (ora4, w4) \<Rightarrow> (Inr (getCachedPrice strCurrency ora4), (ora4, w4)))))"

text \<open>
  The \<open>for ... of\<close> loop of \<open>getCurrencies\<close>: it stops at the first element whose
  \<open>currency\<close> cannot be read, with the entries written so far left in the cache.
\<close>

fun upsert_all :: "jsval list \<Rightarrow> cache \<Rightarrow> jsval option \<times> cache" where
  "upsert_all [] m = (None, m)"
| "upsert_all (cCurrency # cs) m =
     (case read_prop cCurrency ''currency'' of
        Inl e \<Rightarrow> (Some e, m)
      | Inr k \<Rightarrow> upsert_all cs (map_set k cCurrency m))"

fun isArray :: "jsval \<Rightarrow> bool" where
  "isArray (JArr _) = True"
| "isArray _ = False"

fun elements :: "jsval \<Rightarrow> jsval list" where
  "elements (JArr xs) = xs"
| "elements _ = []"

definition getCurrencies_try :: "server \<Rightarrow> state \<Rightarrow> (jsval + jsval) \<times> state" where
  "getCurrencies_try srv s =
     (case s of (ora, w) \<Rightarrow>
        (case fetch srv currencies_url w of (res, w1) \<Rightarrow>
           (case res of
              Fetch_rejected e \<Rightarrow> (Inl e, (ora, w1))
            | Fetch_response cReq \<Rightarrow>
                if \<not> ok cReq then
                  (if status cReq = 404 then
                     (case disableOracle (Reason_text ''oracle route not found (404)'') (ora, w1) of
                        (ora2, w2) \<Rightarrow> (Inr (getCachedCurrencies ora2), (ora2, w2)))
                   else
                     (case markOracleFailure (Reason_http (status cReq) ''currencies'') (ora, w1) of
                        (ora2, w2) \<Rightarrow> (Inr (getCachedCurrencies ora2), (ora2, w2))))
                else
                  (case body cReq of
                     Body_invalid e \<Rightarrow> (Inl e, (ora, w1))
                   | Body_json arrCurrencies \<Rightarrow>
                       if \<not> isArray arrCurrencies \<or> length (elements arrCurrencies) = 0 then
                         (case markOracleFailure (Reason_text ''empty/invalid currencies payload'')
                                 (ora, w1) of
                            (ora2, w2) \<Rightarrow> (Inr (getCachedCurrencies ora2), (ora2, w2)))
                       else
                         let ora2 = markOracleSuccess ora
                         in (case upsert_all (elements arrCurrencies) (mapCurrencies ora2) of
                               (Some e, m) \<Rightarrow> (Inl e, (ora2\<lparr>mapCurrencies := m\<rparr>, w1))
                             | (None, m) \<Rightarrow>
                                 (Inr arrCurrencies,
                                  (ora2\<lparr>mapCurrencies := m, fLoadedCurrencies := True\<rparr>, w1)))))))"

definition getCurrencies :: "server \<Rightarrow> state \<Rightarrow> (jsval + jsval) \<times> state" where
  "getCurrencies srv s =
     (if fOracleDisabled (fst s) then (Inr (getCachedCurrencies (fst s)), s)
      else
        (case getCurrencies_try srv s of
           (Inr v, s1) \<Rightarrow> (Inr v, s1)
         | (Inl e, (ora1, w1)) \<Rightarrow>
             let w2 = debugWarn (Warn_text ''Oracle: Failed to fetch currencies!'') w1;
                 w3 = debugWarn (Warn_value e) w2
             in (case markOracleFailure
                        (Reason_value (js_or (opt_prop e ''message'') (JStr ''currencies fetch failed'')))
                        (ora1, w3) of
                   (ora4, w4) \<Rightarrow> (Inr (getCachedCurrencies ora4), (ora4, w4)))))"

text \<open>
  \<open>load\<close>. Its \<open>while\<close> loop may run forever, so the loop is a partial function:
  \<open>None\<close> is a call that never returns, \<open>Some (Inl e, s)\<close> one that rejects with
  \<open>e\<close> and \<open>Some (Inr (), s)\<close> one that resolves.
\<close>

partial_function (option) load_loop :: "server \<Rightarrow> state \<Rightarrow> ((jsval + unit) \<times> state) option" where
  [code]: "load_loop srv s =
     (if \<not> fLoadedCurrencies (fst s) then
        (case getCurrencies srv s of
           (Inl e, s1) \<Rightarrow> Some (Inl e, s1)
         | (Inr v, (ora1, w1)) \<Rightarrow>
             if \<not> fLoadedCurrencies ora1 then load_loop srv (ora1, sleep 5000 w1)
             else load_loop srv (ora1, w1))
      else Some (Inr (), s))"

definition load :: "server \<Rightarrow> state \<Rightarrow> ((jsval + jsval) \<times> state) option" where
  "load srv s =
     (case load_loop srv s of
        None \<Rightarrow> None
      | Some (Inl e, s1) \<Rightarrow> Some (Inl e, s1)
      | Some (Inr u, (ora1, w1)) \<Rightarrow>
          let w2 = emit (Event ''currency-loaded'' (Some (mapCurrencies ora1))) w1;
              w3 = emit (Event ''price-update'' None) w2
          in Some (Inr JUndefined, (ora1, w3)))"

section \<open>Clients of an instance\<close>

text \<open>
  A client calls the public methods of one instance, one call after the other; each call
  runs to its end before the next starts. \<open>run\<close> gives the results of the calls and the
  final state, or \<open>None\<close> when a call never returns.
\<close>

datatype call = Call_getPrice string | Call_getCurrencies | Call_load

fun perform :: "server \<Rightarrow> call \<Rightarrow> state \<Rightarrow> ((jsval + jsval) \<times> state) option" where
  "perform srv (Call_getPrice strCurrency) s = Some (getPrice srv strCurrency s)"
| "perform srv Call_getCurrencies s = Some (getCurrencies srv s)"
| "perform srv Call_load s = load srv s"

fun run :: "server \<Rightarrow> call list \<Rightarrow> state \<Rightarrow> ((jsval + jsval) list \<times> state) option" where
  "run srv [] s = Some ([], s)"
| "run srv (c # cs) s =
     (case perform srv c s of
        None \<Rightarrow> None
      | Some (r, s1) \<Rightarrow>
          (case run srv cs s1 of
             None \<Rightarrow> None
           | Some (rs, s2) \<Rightarrow> Some (r # rs, s2)))"

section \<open>Notions used in the statements\<close>

text \<open>
  A \<open>Currency\<close> record as the source's type definition has it: an object with a string
  \<open>currency\<close>, a number \<open>value\<close> and a number \<open>last_updated\<close>.
\<close>

fun is_string :: "jsval \<Rightarrow> bool" where
  "is_string (JStr s) = True"
| "is_string _ = False"

fun is_number :: "jsval \<Rightarrow> bool" where
  "is_number (JNum x) = True"
| "is_number _ = False"

fun is_Currency :: "jsval \<Rightarrow> bool" where
  "is_Currency (JObj fs) =
     (is_string (get_own (JObj fs) ''currency'')
      \<and> is_number (get_own (JObj fs) ''value'')
      \<and> is_number (get_own (JObj fs) ''last_updated''))"
| "is_Currency _ = False"

text \<open>Whether a fetch answered with the status 404.\<close>

fun is_404 :: "fetch_result \<Rightarrow> bool" where
  "is_404 (Fetch_response r) = (status r = 404)"
| "is_404 (Fetch_rejected e) = False"

text \<open>What a call answers from the cache alone.\<close>

fun cached_answer :: "Oracle \<Rightarrow> call \<Rightarrow> jsval + jsval" where
  "cached_answer ora (Call_getPrice strCurrency) = Inr (getCachedPrice strCurrency ora)"
| "cached_answer ora Call_getCurrencies = Inr (getCachedCurrencies ora)"
| "cached_answer ora Call_load = Inr JUndefined"

text \<open>The events one completed \<open>load\<close> emits, for the cache it ends with.\<close>

definition load_events :: "cache \<Rightarrow> event list" where
  "load_events m = [Event ''currency-loaded'' (Some m), Event ''price-update'' None]"

text \<open>The events a call emits when it is answered by an oracle that has loaded.\<close>

fun events_of :: "Oracle \<Rightarrow> call \<Rightarrow> event list" where
  "events_of ora Call_load = load_events (mapCurrencies ora)"
| "events_of ora _ = []"

text \<open>
  An answer is clean when its body, if it is a list, has no \<open>null\<close> and no
  \<open>undefined\<close> among its elements.
\<close>

fun clean :: "fetch_result \<Rightarrow> bool" where
  "clean (Fetch_rejected e) = True"
| "clean (Fetch_response r) =
     (case body r of
        Body_invalid e \<Rightarrow> True
      | Body_json j \<Rightarrow> (\<forall>x \<in> set (elements j). x \<noteq> JNull \<and> x \<noteq> JUndefined))"

text \<open>Lowercase strings (ASCII): no letter from A to Z occurs.\<close>

definition is_lowercase :: "string \<Rightarrow> bool" where
  "is_lowercase s = (\<forall>c \<in> set s. c \<notin> set ''ABCDEFGHIJKLMNOPQRSTUVWXYZ'')"

fun is_lowercase_key :: "jsval \<Rightarrow> bool" where
  "is_lowercase_key (JStr s) = is_lowercase s"
| "is_lowercase_key _ = False"

definition keys_lowercase :: "cache \<Rightarrow> bool" where
  "keys_lowercase m = list_all is_lowercase_key (map fst m)"

section \<open>The class AsyncInterval\<close>

text \<open>
  What becomes of one call \<open>cb()\<close>: the call throws, or the promise it returns rejects
  or is fulfilled. A call that never settles is one for which none of these occurs.
\<close>

datatype outcome = Fulfilled | Rejected jsval | Threw jsval

text \<open>
  The two things this class asks the runtime to do later: resume the loop after its sleep,
  and set \<open>#active\<close> to false.
\<close>

datatype action = Wake | Deactivate

type_synonym timer = "nat \<times> action"

text \<open>
  Where the asynchronous loop \<open>#setInterval\<close> stands: suspended in \<open>await cb()\<close>,
  suspended in \<open>await sleep(timeOut)\<close>, or left for good.
\<close>

datatype phase = Calling | Sleeping | Stopped

text \<open>
  An instance together with what the runtime holds for it: the flag \<open>#active\<close>, the
  position and the delay of the loop, the number of calls of \<open>cb\<close> made so far, what
  was given to \<open>console.error\<close>, the pending timers with their due times, the time, and
  the least delay that the runtime gives a timer, all in milliseconds.
\<close>

record AsyncInterval =
  active :: bool
  phase :: phase
  timeOut :: nat
  invocations :: nat
  console :: "jsval list"
  timers :: "timer list"
  time_ms :: nat
  min_delay :: nat

text \<open>
  The runtime's timers: \<open>setTimeout(f, ms)\<close> queues \<open>f\<close> to run once \<open>ms\<close>
  milliseconds have passed, or the runtime's least delay where that is longer (runtimes
  turn a delay of 0 into one of 0, 1 or 4 ms). Timers run one at a time, in the order of
  their due times and, where these are equal, in the order in which they were set.
\<close>

fun insert_timer :: "timer \<Rightarrow> timer list \<Rightarrow> timer list" where
  "insert_timer t [] = [t]"
| "insert_timer t (u # us) = (if fst t < fst u then t # u # us else u # insert_timer t us)"

definition setTimeout :: "action \<Rightarrow> nat \<Rightarrow> AsyncInterval \<Rightarrow> AsyncInterval" where
  "setTimeout f ms s =
     s\<lparr>timers := insert_timer (time_ms s + max ms (min_delay s), f) (timers s)\<rparr>"

text \<open>
  Modelled from the spec: \<open>sleep\<close> of \<open>utils.js\<close> is not among the sources. It suspends
  its caller for the given delay: a timer of that delay whose firing resumes the caller.
\<close>

definition await_sleep :: "nat \<Rightarrow> AsyncInterval \<Rightarrow> AsyncInterval" where
  "await_sleep ms s = (setTimeout Wake ms s)\<lparr>phase := Sleeping\<rparr>"

text \<open>
  The loop of \<open>#setInterval\<close>, from its test \<open>while (this.#active)\<close> to the call
  \<open>cb()\<close>, at which it is suspended.
\<close>

definition loop_test :: "AsyncInterval \<Rightarrow> AsyncInterval" where
  "loop_test s =
     (if active s then s\<lparr>invocations := invocations s + 1, phase := Calling\<rparr>
      else s\<lparr>phase := Stopped\<rparr>)"

text \<open>
  \<open>try { await cb() } catch (e) { console.error(e) }\<close>: \<open>Inl\<close> is the error that the
  \<open>catch\<close> receives. Then the loop sleeps.
\<close>

fun awaited :: "outcome \<Rightarrow> jsval + unit" where
  "awaited Fulfilled = Inr ()"
| "awaited (Rejected e) = Inl e"
| "awaited (Threw e) = Inl e"

definition after_call :: "outcome \<Rightarrow> AsyncInterval \<Rightarrow> AsyncInterval" where
  "after_call oc s =
     (let s1 = (case awaited oc of
                  Inl e \<Rightarrow> s\<lparr>console := console s @ [e]\<rparr>
                | Inr u \<Rightarrow> s)
      in await_sleep (timeOut s1) s1)"

text \<open>
  The constructor: \<open>#active\<close> starts true, and \<open>#setInterval\<close> runs up to its first
  call of \<open>cb\<close>. The arguments are the delay, and the time at the construction and
  the least delay of the runtime.
\<close>

definition AsyncInterval_new :: "nat \<Rightarrow> nat \<Rightarrow> nat \<Rightarrow> AsyncInterval" where
  "AsyncInterval_new ms t least =
     loop_test \<lparr>active = True, phase = Sleeping, timeOut = ms, invocations = 0,
                console = [], timers = [], time_ms = t, min_delay = least\<rparr>"

definition clearInterval :: "nat \<Rightarrow> AsyncInterval \<Rightarrow> AsyncInterval" where
  "clearInterval ms s = setTimeout Deactivate ms s"

text \<open>
  The first pending timer runs, at its due time or later: the flag is cleared, or the loop
  is resumed after its sleep and comes to its test again.
\<close>

definition timer_fires :: "AsyncInterval \<Rightarrow> AsyncInterval" where
  "timer_fires s =
     (case timers s of
        [] \<Rightarrow> s
      | (due, f) # rest \<Rightarrow>
          let s1 = s\<lparr>timers := rest, time_ms := max (time_ms s) due\<rparr>
          in (case f of
                Deactivate \<Rightarrow> s1\<lparr>active := False\<rparr>
              | Wake \<Rightarrow> loop_test s1))"

text \<open>
  What can occur in the life of an instance: the pending call of \<open>cb\<close> settles, the first
  pending timer runs, time passes, or someone calls \<open>clearInterval\<close>. A settling while no
  call is pending does not occur.
\<close>

datatype occurrence =
    Settles outcome
  | Timer_fires
  | Elapses nat
  | Calls_clearInterval nat

fun occur :: "occurrence \<Rightarrow> AsyncInterval \<Rightarrow> AsyncInterval" where
  "occur (Settles oc) s = (if phase s = Calling then after_call oc s else s)"
| "occur Timer_fires s = timer_fires s"
| "occur (Elapses ms) s = s\<lparr>time_ms := time_ms s + ms\<rparr>"
| "occur (Calls_clearInterval ms) s = clearInterval ms s"

definition occur_all :: "occurrence list \<Rightarrow> AsyncInterval \<Rightarrow> AsyncInterval" where
  "occur_all os s = foldl (\<lambda>s e. occur e s) s os"

fun is_clear :: "occurrence \<Rightarrow> bool" where
  "is_clear (Calls_clearInterval ms) = True"
| "is_clear _ = False"

text \<open>
  The number of sleeps that end before the first timer that clears the flag and is due at
  \<open>t\<close> or before; \<open>None\<close> when no such timer is pending.
\<close>

fun wakes_before_stop :: "nat \<Rightarrow> timer list \<Rightarrow> nat option" where
  "wakes_before_stop t [] = None"
| "wakes_before_stop t ((due, Deactivate) # ts) =
     (if due \<le> t then Some 0 else wakes_before_stop t ts)"
| "wakes_before_stop t ((due, Wake) # ts) = map_option Suc (wakes_before_stop t ts)"

text \<open>
  The number of calls can no longer exceed \<open>N\<close>: the flag is false, or a timer that
  clears it is due before any timer set from now on, and the sleeps that end before it
  leave room.
\<close>

definition doomed :: "nat \<Rightarrow> AsyncInterval \<Rightarrow> bool" where
  "doomed N s =
     ((\<not> active s \<and> invocations s \<le> N)
      \<or> (case wakes_before_stop (time_ms s + min_delay s) (timers s) of
            None \<Rightarrow> False
          | Some j \<Rightarrow> invocations s + j \<le> N))"

text \<open>
  Pending timers are in the order of their due times, and a sleep is pending exactly while
  the loop sleeps.
\<close>

definition wakes :: "timer list \<Rightarrow> nat" where
  "wakes ts = length (filter (\<lambda>t. snd t = Wake) ts)"

definition well_formed :: "AsyncInterval \<Rightarrow> bool" where
  "well_formed s =
     (sorted (map fst (timers s)) \<and> wakes (timers s) = (if phase s = Sleeping then 1 else 0))"

text \<open>What \<open>console.error\<close> receives for a call.\<close>

definition caught :: "outcome \<Rightarrow> jsval list" where
  "caught oc = (case awaited oc of Inl e \<Rightarrow> [e] | Inr u \<Rightarrow> [])"

text \<open>Calls of \<open>cb\<close> that settle one after the other, each followed by the end of the sleep.\<close>

definition rounds :: "outcome list \<Rightarrow> occurrence list" where
  "rounds ocs = concat (map (\<lambda>oc. [Settles oc, Timer_fires]) ocs)"

section \<open>Concrete inputs\<close>

definition ex_world :: world where
  "ex_world = \<lparr>requests = [], warnings = [], emitted = [], slept = [], clock_ms = 1700000000123\<rparr>"

definition ex_usd5 :: jsval where
  "ex_usd5 = JObj [(''currency'', JStr ''usd''), (''value'', JNum 5), (''last_updated'', JNum 1600000000)]"

definition ex_holding_usd :: Oracle where
  "ex_holding_usd = Oracle_init\<lparr>mapCurrencies := [(JStr ''usd'', ex_usd5)]\<rparr>"


definition ex_eur2 :: jsval where
  "ex_eur2 = JObj [(''currency'', JStr ''eur''), (''value'', JNum 2), (''last_updated'', JNum 1600000000)]"

definition ex_ok_eur2 :: response where
  "ex_ok_eur2 = \<lparr>status = 200, body = Body_json ex_eur2\<rparr>"

definition ex_srv_eur2 :: server where
  "ex_srv_eur2 = (\<lambda>history url. Fetch_response ex_ok_eur2)"

definition ex_usd1 :: jsval where
  "ex_usd1 = JObj [(''currency'', JStr ''usd''), (''value'', JNum 1), (''last_updated'', JNum 1600000000)]"

definition ex_usd2 :: jsval where
  "ex_usd2 = JObj [(''currency'', JStr ''usd''), (''value'', JNum 2), (''last_updated'', JNum 1600000060)]"

definition ex_ok_list :: response where
  "ex_ok_list = \<lparr>status = 200, body = Body_json (JArr [ex_usd5, ex_eur2])\<rparr>"

definition ex_srv_list :: server where
  "ex_srv_list = (\<lambda>history url. Fetch_response ex_ok_list)"

definition ex_ok_twice_usd :: response where
  "ex_ok_twice_usd = \<lparr>status = 200, body = Body_json (JArr [ex_usd1, ex_usd2])\<rparr>"

definition ex_srv_twice_usd :: server where
  "ex_srv_twice_usd = (\<lambda>history url. Fetch_response ex_ok_twice_usd)"

definition ex_srv_500 :: server where
  "ex_srv_500 = (\<lambda>history url. Fetch_response \<lparr>status = 500, body = Body_invalid JNull\<rparr>)"

definition ex_srv_404 :: server where
  "ex_srv_404 = (\<lambda>history url. Fetch_response \<lparr>status = 404, body = Body_invalid JNull\<rparr>)"

text \<open>The state after three calls of \<open>getPrice\<close> that were all answered with status 500.\<close>

definition ex_after_three_500 :: state where
  "ex_after_three_500 =
     snd (getPrice ex_srv_500 ''usd''
       (snd (getPrice ex_srv_500 ''usd''
         (snd (getPrice ex_srv_500 ''usd'' (Oracle_init, ex_world))))))"

text \<open>A server that answers every request with status 200 and the JSON body \<open>[null]\<close>.\<close>

definition ex_srv_null_list :: server where
  "ex_srv_null_list = (\<lambda>history url. Fetch_response \<lparr>status = 200, body = Body_json (JArr [JNull])\<rparr>)"

text \<open>
  The state in which \<open>load\<close> ends when it starts on a fresh active oracle and every
  request is answered with status 500.
\<close>

definition ex_gave_up :: state where
  "ex_gave_up =
    (\<lparr>mapCurrencies =
        [(JStr ''usd'', fallback_record ''usd'' 1700000010),
         (JStr ''eur'', fallback_record ''eur'' 1700000010),
         (JStr ''gbp'', fallback_record ''gbp'' 1700000010),
         (JStr ''btc'', fallback_record ''btc'' 1700000010)],
      fLoadedCurrencies = True, nOracleFailures = 3, fOracleDisabled = True\<rparr>,
     \<lparr>requests = [''/oracle/api/v1/currencies'', ''/oracle/api/v1/currencies'',
                  ''/oracle/api/v1/currencies''],
      warnings =
        [Warn_failed 1 3 (Reason_http 500 ''currencies''),
         Warn_failed 2 3 (Reason_http 500 ''currencies''),
         Warn_failed 3 3 (Reason_http 500 ''currencies''),
         Warn_disabled (Reason_http 500 ''currencies'')],
      emitted =
        [Event ''currency-loaded''
           (Some [(JStr ''usd'', fallback_record ''usd'' 1700000010),
                  (JStr ''eur'', fallback_record ''eur'' 1700000010),
                  (JStr ''gbp'', fallback_record ''gbp'' 1700000010),
                  (JStr ''btc'', fallback_record ''btc'' 1700000010)]),
         Event ''price-update'' None],
      slept = [5000, 5000], clock_ms = 1700000010123\<rparr>)"

definition ex_interval :: AsyncInterval where
  "ex_interval = AsyncInterval_new 100 0 1"

text \<open>A server that answers every request with status 200 and the JSON body \<open>null\<close>.\<close>

definition ex_srv_null :: server where
  "ex_srv_null = (\<lambda>history url. Fetch_response \<lparr>status = 200, body = Body_json JNull\<rparr>)"

text \<open>
  A record whose \<open>value\<close> is \<open>null\<close>, and a server that answers every request with
  status 200 and that record.
\<close>

definition ex_usd_null :: jsval where
  "ex_usd_null =
     JObj [(''currency'', JStr ''usd''), (''value'', JNull), (''last_updated'', JNum 1600000000)]"

definition ex_srv_usd_null :: server where
  "ex_srv_usd_null =
     (\<lambda>history url. Fetch_response \<lparr>status = 200, body = Body_json ex_usd_null\<rparr>)"

text \<open>
  A record whose \<open>currency\<close> is written in capitals, and a server that answers every
  request with status 200 and the list of that record alone.
\<close>

definition ex_EUR3 :: jsval where
  "ex_EUR3 = JObj [(''currency'', JStr ''EUR''), (''value'', JNum 3), (''last_updated'', JNum 1600000000)]"

definition ex_ok_EUR3 :: response where
  "ex_ok_EUR3 = \<lparr>status = 200, body = Body_json (JArr [ex_EUR3])\<rparr>"

definition ex_srv_EUR3 :: server where
  "ex_srv_EUR3 = (\<lambda>history url. Fetch_response ex_ok_EUR3)"

section \<open>Facts about the cache and the bookkeeping\<close>

lemma map_get_set: "map_get (map_set k v m) k' = (if same_key k k' then v else map_get m k')"
  by (induction m) (auto simp: same_key_def split: if_splits)

lemma map_has_set: "map_has (map_set k v m) k' = (same_key k k' \<or> map_has m k')"
  by (induction m) (auto simp: same_key_def split: if_splits)

lemma map_set_absent: "\<not> map_has m k \<Longrightarrow> \<not> is_ref k \<Longrightarrow> map_set k v m = m @ [(k, v)]"
  by (induction m) (auto simp: same_key_def split: if_splits)

lemma map_get_absent: "\<not> map_has m k \<Longrightarrow> map_get m k = JUndefined"
  by (induction m) (auto split: if_splits)

lemma map_has_append: "map_has (m @ m') k = (map_has m k \<or> map_has m' k)"
  by (induction m) auto

lemma map_get_append: "map_get (m @ m') k = (if map_has m k then map_get m k else map_get m' k)"
  by (induction m) auto

lemma seed_fallback_append:
  "distinct cs \<Longrightarrow>
   seed_fallback now cs m =
     m @ map (\<lambda>c. (JStr c, fallback_record c now)) (filter (\<lambda>c. \<not> map_has m (JStr c)) cs)"
proof (induction cs arbitrary: m)
  case Nil
  then show ?case by simp
next
  case (Cons c cs)
  have rest: "filter (\<lambda>x. \<not> map_has (m @ [(JStr c, v)]) (JStr x)) cs
              = filter (\<lambda>x. \<not> map_has m (JStr x)) cs" for v
    using Cons.prems by (intro filter_cong) (auto simp: map_has_append same_key_def)
  show ?case
  proof (cases "map_has m (JStr c)")
    case True
    with Cons show ?thesis by simp
  next
    case False
    with Cons rest show ?thesis by (simp add: map_set_absent)
  qed
qed

lemma seed_fallback_has:
  "map_has (seed_fallback now cs m) k = (map_has m k \<or> k \<in> JStr ` set cs)"
  by (induction cs arbitrary: m) (auto simp: map_has_set same_key_def)

lemma seed_fallback_keeps:
  "map_has m k \<Longrightarrow> map_get (seed_fallback now cs m) k = map_get m k"
proof (induction cs arbitrary: m)
  case Nil
  then show ?case by simp
next
  case (Cons c cs)
  then show ?case
    by (cases "map_has m (JStr c)") (auto simp: map_has_set map_get_set same_key_def)
qed

lemma seed_fallback_adds:
  "c \<in> set cs \<Longrightarrow> \<not> map_has m (JStr c) \<Longrightarrow>
   map_get (seed_fallback now cs m) (JStr c) = fallback_record c now"
proof (induction cs arbitrary: m)
  case Nil
  then show ?case by simp
next
  case (Cons d cs)
  show ?case
  proof (cases "d = c")
    case True
    with Cons.prems show ?thesis
      by (simp add: seed_fallback_keeps map_has_set map_get_set same_key_def)
  next
    case False
    with Cons show ?thesis
      by (auto simp: map_has_set same_key_def)
  qed
qed

lemma disableOracle_disabled:
  "fOracleDisabled ora \<Longrightarrow> disableOracle rsn (ora, w) = (ora, w)"
  by (simp add: disableOracle_def)

lemma disableOracle_active:
  "\<not> fOracleDisabled ora \<Longrightarrow>
   disableOracle rsn (ora, w) =
     (ora\<lparr>mapCurrencies := seed_fallback (clock_ms w div 1000) FALLBACK_CURRENCIES (mapCurrencies ora),
          fLoadedCurrencies := True, fOracleDisabled := True\<rparr>,
      w\<lparr>warnings := warnings w @ [Warn_disabled rsn]\<rparr>)"
  by (simp add: disableOracle_def ensureFallbackCurrencies_def debugWarn_def)

lemma distinct_FALLBACK: "distinct FALLBACK_CURRENCIES"
  by (simp add: FALLBACK_CURRENCIES_def)


lemma getCachedPrice_seed:
  assumes "mapCurrencies ora' = seed_fallback now cs (mapCurrencies ora)"
  shows "getCachedPrice c ora' = getCachedPrice c ora"
proof (cases "map_has (mapCurrencies ora) (JStr c)")
  case True
  then show ?thesis by (simp add: getCachedPrice_def assms seed_fallback_keeps)
next
  case False
  then show ?thesis
    by (cases "c \<in> set cs")
       (simp_all add: getCachedPrice_def assms seed_fallback_adds map_get_absent seed_fallback_has
          fallback_record_def js_or_def image_iff)
qed

lemma getCachedPrice_same_cache:
  "mapCurrencies ora' = mapCurrencies ora \<Longrightarrow> getCachedPrice c ora' = getCachedPrice c ora"
  by (simp add: getCachedPrice_def)

lemma disableOracle_sel:
  "fOracleDisabled (fst (disableOracle rsn (ora, w)))"
  "fLoadedCurrencies (fst (disableOracle rsn (ora, w))) = (fLoadedCurrencies ora \<or> \<not> fOracleDisabled ora)"
  "nOracleFailures (fst (disableOracle rsn (ora, w))) = nOracleFailures ora"
  "requests (snd (disableOracle rsn (ora, w))) = requests w"
  "emitted (snd (disableOracle rsn (ora, w))) = emitted w"
  "slept (snd (disableOracle rsn (ora, w))) = slept w"
  "clock_ms (snd (disableOracle rsn (ora, w))) = clock_ms w"
  by (cases "fOracleDisabled ora", simp_all add: disableOracle_disabled disableOracle_active)+

lemma disableOracle_price:
  "getCachedPrice c (fst (disableOracle rsn (ora, w))) = getCachedPrice c ora"
proof (cases "fOracleDisabled ora")
  case True
  then show ?thesis by (simp add: disableOracle_disabled)
next
  case False
  then show ?thesis
    by (intro getCachedPrice_seed [where now = "clock_ms w div 1000" and cs = FALLBACK_CURRENCIES])
       (simp add: disableOracle_active)
qed

lemma markOracleFailure_eq:
  "markOracleFailure rsn (ora, w) =
     (let ora1 = ora\<lparr>nOracleFailures := nOracleFailures ora + 1\<rparr>;
          w1 = w\<lparr>warnings := warnings w @ [Warn_failed (nOracleFailures ora + 1) ORACLE_RETRY_LIMIT rsn]\<rparr>
      in if ORACLE_RETRY_LIMIT \<le> nOracleFailures ora + 1 then disableOracle rsn (ora1, w1) else (ora1, w1))"
  by (simp add: markOracleFailure_def debugWarn_def Let_def)

lemma markOracleFailure_sel:
  "fOracleDisabled (fst (markOracleFailure rsn (ora, w))) =
     (fOracleDisabled ora \<or> ORACLE_RETRY_LIMIT \<le> nOracleFailures ora + 1)"
  "fLoadedCurrencies (fst (markOracleFailure rsn (ora, w))) =
     (fLoadedCurrencies ora \<or> (\<not> fOracleDisabled ora \<and> ORACLE_RETRY_LIMIT \<le> nOracleFailures ora + 1))"
  "nOracleFailures (fst (markOracleFailure rsn (ora, w))) = nOracleFailures ora + 1"
  "requests (snd (markOracleFailure rsn (ora, w))) = requests w"
  "emitted (snd (markOracleFailure rsn (ora, w))) = emitted w"
  "slept (snd (markOracleFailure rsn (ora, w))) = slept w"
  "clock_ms (snd (markOracleFailure rsn (ora, w))) = clock_ms w"
  by (simp_all add: markOracleFailure_eq Let_def disableOracle_sel)

lemma markOracleFailure_price:
  "getCachedPrice c (fst (markOracleFailure rsn (ora, w))) = getCachedPrice c ora"
proof -
  have "getCachedPrice c (ora\<lparr>nOracleFailures := nOracleFailures ora + 1\<rparr>) = getCachedPrice c ora"
    by (rule getCachedPrice_same_cache) simp
  then show ?thesis
    by (simp add: markOracleFailure_eq Let_def disableOracle_price)
qed

lemma getPrice_disabled:
  "fOracleDisabled ora \<Longrightarrow> getPrice srv c (ora, w) = (Inr (getCachedPrice c ora), (ora, w))"
  by (simp add: getPrice_def)

lemma getPrice_success:
  assumes "\<not> fOracleDisabled ora"
    and "srv (requests w) (price_url c) = Fetch_response r"
    and "ok r" and "body r = Body_json j" and "read_prop j ''value'' = Inr v"
  shows "getPrice srv c (ora, w) =
     (Inr v, (ora\<lparr>mapCurrencies := map_set (JStr c) j (mapCurrencies ora), nOracleFailures := 0\<rparr>,
              w\<lparr>requests := requests w @ [price_url c]\<rparr>))"
  using assms
  by (simp add: getPrice_def getPrice_try_def fetch_def markOracleSuccess_def Let_def)

text \<open>The \<open>catch\<close> block of \<open>getPrice\<close>, as a function of the state at the throw.\<close>

lemma getPrice_caught:
  assumes "\<not> fOracleDisabled ora" and "getPrice_try srv c (ora, w) = (Inl e, (ora1, w1))"
  shows "getPrice srv c (ora, w) =
     (let s2 = markOracleFailure
                 (Reason_value (js_or (opt_prop e ''message'') (JStr ''price fetch failed'')))
                 (ora1, w1\<lparr>warnings := warnings w1 @
                    [Warn_text (''Oracle: Failed to fetch '' @ toUpperCase c @ '' price!''),
                     Warn_value e]\<rparr>)
      in (Inr (getCachedPrice c (fst s2)), s2))"
  using assms
  by (simp add: getPrice_def debugWarn_def Let_def split: prod.splits)

lemma getPrice_resolves: "\<exists>v. fst (getPrice srv c s) = Inr v"
  by (cases s) (auto simp: getPrice_def Let_def split: prod.splits sum.splits)

lemma getPrice_try_cached:
  "getPrice_try srv c (ora, w) = (Inr v, (ora', w')) \<Longrightarrow>
   (\<exists>r j. srv (requests w) (price_url c) = Fetch_response r \<and> ok r \<and> body r = Body_json j
       \<and> read_prop j ''value'' = Inr v)
   \<or> v = getCachedPrice c ora'"
  by (auto simp: getPrice_try_def fetch_def Let_def
      split: fetch_result.splits if_splits prod.splits body.splits)

lemma is_string_iff: "is_string x = (\<exists>s. x = JStr s)"
  by (cases x) simp_all

lemma is_number_iff: "is_number x = (\<exists>n. x = JNum n)"
  by (cases x) simp_all

lemma is_Currency_read:
  "is_Currency j \<Longrightarrow> read_prop j name = Inr (get_own j name)"
  by (cases j) simp_all

lemma is_Currency_fields:
  assumes "is_Currency j"
  shows "\<exists>c v t. get_own j ''currency'' = JStr c \<and> get_own j ''value'' = JNum v
     \<and> get_own j ''last_updated'' = JNum t"
proof (cases j)
  case (JObj fs)
  with assms show ?thesis
    unfolding JObj is_Currency.simps is_string_iff is_number_iff by blast
qed (use assms in simp_all)

lemma getCurrencies_disabled:
  "fOracleDisabled ora \<Longrightarrow>
   getCurrencies srv (ora, w) = (Inr (getCachedCurrencies ora), (ora, w))"
  by (simp add: getCurrencies_def)

lemma getCurrencies_resolves: "\<exists>v. fst (getCurrencies srv s) = Inr v"
  by (cases s) (auto simp: getCurrencies_def Let_def split: prod.splits sum.splits)

lemma upsert_all_records:
  "\<forall>x \<in> set rs. is_Currency x \<Longrightarrow>
   upsert_all rs m = (None, foldl (\<lambda>m x. map_set (get_own x ''currency'') x m) m rs)"
  by (induction rs arbitrary: m) (simp_all add: is_Currency_read)

lemma getCurrencies_success:
  assumes "\<not> fOracleDisabled ora"
    and "srv (requests w) currencies_url = Fetch_response r"
    and "ok r" and "body r = Body_json (JArr rs)" and "rs \<noteq> []"
    and "upsert_all rs (mapCurrencies ora) = (None, m)"
  shows "getCurrencies srv (ora, w) =
     (Inr (JArr rs),
      (ora\<lparr>mapCurrencies := m, fLoadedCurrencies := True, nOracleFailures := 0\<rparr>,
       w\<lparr>requests := requests w @ [currencies_url]\<rparr>))"
  using assms
  by (simp add: getCurrencies_def getCurrencies_try_def fetch_def markOracleSuccess_def Let_def)

lemma foldl_upsert_other:
  "\<forall>y \<in> set post. get_own y ''currency'' \<noteq> k \<Longrightarrow>
   map_get (foldl (\<lambda>m x. map_set (get_own x ''currency'') x m) m post) k = map_get m k"
  by (induction post arbitrary: m) (simp_all add: map_get_set same_key_def)

lemma foldl_upsert_last:
  assumes "get_own x ''currency'' = JStr c"
    and "\<forall>y \<in> set post. get_own y ''currency'' \<noteq> JStr c"
  shows "map_get (foldl (\<lambda>m x. map_set (get_own x ''currency'') x m) m (pre @ x # post)) (JStr c) = x"
  using assms by (simp add: foldl_upsert_other map_get_set same_key_def)

lemma cached_value_of_record:
  assumes "is_Currency x" and "map_get (mapCurrencies ora) (JStr c) = x"
  shows "getCachedPrice c ora = get_own x ''value''"
proof -
  from assms(1) obtain v where v: "get_own x ''value'' = JNum v"
    using is_Currency_fields by blast
  from assms(1) have "opt_prop x ''value'' = get_own x ''value''"
    by (cases x) simp_all
  with v assms(2) show ?thesis
    by (simp add: getCachedPrice_def js_or_def)
qed

lemma Oracle_constructor_disabled:
  "fOracleDisabled (fst (Oracle_constructor enabled w)) = (\<not> enabled)"
  by (simp add: Oracle_constructor_def ensureFallbackCurrencies_def Oracle_init_def)

lemma ok_not_404: "ok r \<Longrightarrow> status r \<noteq> 404"
  by (simp add: ok_def)

lemma getPrice_disabled_iff:
  assumes "\<not> fOracleDisabled ora"
  shows "fOracleDisabled (fst (snd (getPrice srv c (ora, w)))) =
     (is_404 (srv (requests w) (price_url c))
      \<or> ORACLE_RETRY_LIMIT \<le> nOracleFailures (fst (snd (getPrice srv c (ora, w)))))"
  using assms
  by (simp add: getPrice_def getPrice_try_def fetch_def split_beta Let_def debugWarn_def
      markOracleFailure_sel disableOracle_sel markOracleSuccess_def ok_not_404
      split: fetch_result.splits body.splits sum.splits)
     (simp add: ORACLE_RETRY_LIMIT_def)

lemma getCurrencies_disabled_iff:
  assumes "\<not> fOracleDisabled ora"
  shows "fOracleDisabled (fst (snd (getCurrencies srv (ora, w)))) =
     (is_404 (srv (requests w) currencies_url)
      \<or> ORACLE_RETRY_LIMIT \<le> nOracleFailures (fst (snd (getCurrencies srv (ora, w)))))"
  using assms
  by (simp add: getCurrencies_def getCurrencies_try_def fetch_def split_beta Let_def debugWarn_def
      markOracleFailure_sel disableOracle_sel markOracleSuccess_def ok_not_404
      split: fetch_result.splits body.splits sum.splits option.splits)
     (simp add: ORACLE_RETRY_LIMIT_def)

lemma load_loop_loaded:
  "fLoadedCurrencies ora \<Longrightarrow> load_loop srv (ora, w) = Some (Inr (), (ora, w))"
  by (simp add: load_loop.simps)

lemma load_loaded:
  "fLoadedCurrencies ora \<Longrightarrow>
   load srv (ora, w) =
     Some (Inr JUndefined, (ora, w\<lparr>emitted := emitted w @ load_events (mapCurrencies ora)\<rparr>))"
  by (simp add: load_def load_loop_loaded emit_def load_events_def)

lemma perform_disabled:
  assumes "fOracleDisabled ora" and "fLoadedCurrencies ora"
  shows "perform srv call (ora, w) =
     Some (cached_answer ora call, (ora, w\<lparr>emitted := emitted w @ events_of ora call\<rparr>))"
  using assms by (cases call) (simp_all add: getPrice_disabled getCurrencies_disabled load_loaded)

lemma run_disabled:
  assumes "fOracleDisabled ora" and "fLoadedCurrencies ora"
  shows "run srv calls (ora, w) =
     Some (map (cached_answer ora) calls,
           (ora, w\<lparr>emitted := emitted w @ concat (map (events_of ora) calls)\<rparr>))"
  using assms by (induction calls arbitrary: w) (simp_all add: perform_disabled)

lemma ex_after_three_500_eq:
  "ex_after_three_500 =
    (\<lparr>mapCurrencies =
        [(JStr ''usd'', fallback_record ''usd'' 1700000000),
         (JStr ''eur'', fallback_record ''eur'' 1700000000),
         (JStr ''gbp'', fallback_record ''gbp'' 1700000000),
         (JStr ''btc'', fallback_record ''btc'' 1700000000)],
      fLoadedCurrencies = True, nOracleFailures = 3, fOracleDisabled = True\<rparr>,
     \<lparr>requests = [''/oracle/api/v1/price/usd'', ''/oracle/api/v1/price/usd'',
                  ''/oracle/api/v1/price/usd''],
      warnings =
        [Warn_failed 1 3 (Reason_http 500 ''price''),
         Warn_failed 2 3 (Reason_http 500 ''price''),
         Warn_failed 3 3 (Reason_http 500 ''price''),
         Warn_disabled (Reason_http 500 ''price'')],
      emitted = [], slept = [], clock_ms = 1700000000123\<rparr>)"
  by (simp add: ex_after_three_500_def getPrice_def getPrice_try_def fetch_def Oracle_init_def
      ex_world_def ex_srv_500_def ok_def markOracleFailure_def disableOracle_def
      ensureFallbackCurrencies_def debugWarn_def ORACLE_RETRY_LIMIT_def FALLBACK_CURRENCIES_def
      price_url_def ORACLE_BASE_def same_key_def Let_def)

lemma getCurrencies_null_list:
  assumes "\<not> fOracleDisabled ora"
  shows "\<exists>w'. getCurrencies ex_srv_null_list (ora, w) =
           (Inr (getCachedCurrencies ora), (ora\<lparr>nOracleFailures := 1\<rparr>, w'))"
  using assms
  by (simp add: getCurrencies_def getCurrencies_try_def fetch_def ex_srv_null_list_def ok_def
      markOracleSuccess_def markOracleFailure_def ORACLE_RETRY_LIMIT_def Let_def debugWarn_def
      getCachedCurrencies_def)

lemma load_loop_null_list:
  assumes "load_loop srv s = Some y"
  shows "\<not> (srv = ex_srv_null_list \<and> \<not> fOracleDisabled (fst s) \<and> \<not> fLoadedCurrencies (fst s))"
proof (rule load_loop.raw_induct
    [where P = "\<lambda>srv s y. \<not> (srv = ex_srv_null_list \<and> \<not> fOracleDisabled (fst s)
                              \<and> \<not> fLoadedCurrencies (fst s))", OF _ assms])
  fix loop :: "server \<Rightarrow> state \<Rightarrow> ((jsval + unit) \<times> state) option"
    and srv s y
  assume IH: "\<And>srv s y. loop srv s = Some y \<Longrightarrow>
           \<not> (srv = ex_srv_null_list \<and> \<not> fOracleDisabled (fst s) \<and> \<not> fLoadedCurrencies (fst s))"
    and body: "(if \<not> fLoadedCurrencies (fst s)
      then case getCurrencies srv s of (Inl e, s1) \<Rightarrow> Some (Inl e, s1)
           | (Inr v, ora1, w1) \<Rightarrow>
               if \<not> fLoadedCurrencies ora1
               then loop srv (ora1, sleep 5000 w1)
               else loop srv (ora1, w1)
      else Some (Inr (), s)) = Some y"
  show "\<not> (srv = ex_srv_null_list \<and> \<not> fOracleDisabled (fst s) \<and> \<not> fLoadedCurrencies (fst s))"
  proof
    assume inv: "srv = ex_srv_null_list \<and> \<not> fOracleDisabled (fst s) \<and> \<not> fLoadedCurrencies (fst s)"
    obtain ora w where s: "s = (ora, w)" by (cases s)
    from inv s obtain w' where
      step: "getCurrencies ex_srv_null_list (ora, w) =
               (Inr (getCachedCurrencies ora), (ora\<lparr>nOracleFailures := 1\<rparr>, w'))"
      using getCurrencies_null_list by fastforce
    from body inv s step
    have "loop ex_srv_null_list (ora\<lparr>nOracleFailures := 1\<rparr>, sleep 5000 w') = Some y"
      by simp
    from IH [OF this] inv s show False by simp
  qed
qed

lemma getCurrencies_frame:
  "emitted (snd (snd (getCurrencies srv (ora, w)))) = emitted w"
  "slept (snd (snd (getCurrencies srv (ora, w)))) = slept w"
  "clock_ms (snd (snd (getCurrencies srv (ora, w)))) = clock_ms w"
  by (simp_all add: getCurrencies_def getCurrencies_try_def fetch_def split_beta Let_def debugWarn_def
      markOracleFailure_sel disableOracle_sel
      split: fetch_result.splits body.splits sum.splits option.splits)

lemma getCurrencies_requests:
  "\<not> fOracleDisabled ora \<Longrightarrow>
   requests (snd (snd (getCurrencies srv (ora, w)))) = requests w @ [currencies_url]"
  by (simp add: getCurrencies_def getCurrencies_try_def fetch_def split_beta Let_def debugWarn_def
      markOracleFailure_sel disableOracle_sel
      split: fetch_result.splits body.splits sum.splits option.splits)

lemma getPrice_frame:
  "emitted (snd (snd (getPrice srv c (ora, w)))) = emitted w"
  "slept (snd (snd (getPrice srv c (ora, w)))) = slept w"
  "clock_ms (snd (snd (getPrice srv c (ora, w)))) = clock_ms w"
  by (simp_all add: getPrice_def getPrice_try_def fetch_def split_beta Let_def debugWarn_def
      markOracleFailure_sel disableOracle_sel
      split: fetch_result.splits body.splits sum.splits option.splits)

text \<open>One round of the loop of \<open>load\<close>, for an oracle that has not loaded.\<close>

lemma load_loop_round:
  assumes "\<not> fLoadedCurrencies ora" and "snd (getCurrencies srv (ora, w)) = (ora1, w1)"
  shows "load_loop srv (ora, w) =
     (if fLoadedCurrencies ora1 then Some (Inr (), (ora1, w1))
      else load_loop srv (ora1, sleep 5000 w1))"
proof -
  obtain v where "fst (getCurrencies srv (ora, w)) = Inr v"
    using getCurrencies_resolves by blast
  with assms(2) have "getCurrencies srv (ora, w) = (Inr v, (ora1, w1))"
    by (simp add: prod_eq_iff)
  with assms(1) show ?thesis
    by (subst load_loop.simps) (simp add: load_loop_loaded)
qed

lemma load_loop_result:
  assumes "load_loop srv s = Some y"
  shows "(fLoadedCurrencies (fst s) \<longrightarrow> y = (Inr (), s))
     \<and> \<not> (fOracleDisabled (fst s) \<and> \<not> fLoadedCurrencies (fst s))
     \<and> (\<exists>ora' w' n. y = (Inr (), (ora', w')) \<and> fLoadedCurrencies ora'
           \<and> emitted w' = emitted (snd s)
           \<and> slept w' = slept (snd s) @ replicate n 5000
           \<and> requests w' = requests (snd s) @
                replicate (if fLoadedCurrencies (fst s) then 0 else n + 1) currencies_url)"
proof (rule load_loop.raw_induct
    [where P = "\<lambda>srv s y. (fLoadedCurrencies (fst s) \<longrightarrow> y = (Inr (), s))
     \<and> \<not> (fOracleDisabled (fst s) \<and> \<not> fLoadedCurrencies (fst s))
     \<and> (\<exists>ora' w' n. y = (Inr (), (ora', w')) \<and> fLoadedCurrencies ora'
           \<and> emitted w' = emitted (snd s)
           \<and> slept w' = slept (snd s) @ replicate n 5000
           \<and> requests w' = requests (snd s) @
                replicate (if fLoadedCurrencies (fst s) then 0 else n + 1) currencies_url)",
     OF _ assms])
  fix loop :: "server \<Rightarrow> state \<Rightarrow> ((jsval + unit) \<times> state) option"
    and srv s y
  let ?P = "\<lambda>s y. (fLoadedCurrencies (fst s) \<longrightarrow> y = (Inr (), s))
     \<and> \<not> (fOracleDisabled (fst s) \<and> \<not> fLoadedCurrencies (fst s))
     \<and> (\<exists>ora' w' n. y = (Inr (), (ora', w')) \<and> fLoadedCurrencies ora'
           \<and> emitted w' = emitted (snd s)
           \<and> slept w' = slept (snd s) @ replicate n 5000
           \<and> requests w' = requests (snd s) @
                replicate (if fLoadedCurrencies (fst s) then 0 else n + 1) currencies_url)"
  assume IH: "\<And>srv s y. loop srv s = Some y \<Longrightarrow> ?P s y"
    and body: "(if \<not> fLoadedCurrencies (fst s)
      then case getCurrencies srv s of (Inl e, s1) \<Rightarrow> Some (Inl e, s1)
           | (Inr v, ora1, w1) \<Rightarrow>
               if \<not> fLoadedCurrencies ora1
               then loop srv (ora1, sleep 5000 w1)
               else loop srv (ora1, w1)
      else Some (Inr (), s)) = Some y"
  obtain ora w where s: "s = (ora, w)" by (cases s)
  show "?P s y"
  proof (cases "fLoadedCurrencies ora")
    case True
    with body s have "y = (Inr (), (ora, w))" by simp
    with True s show ?thesis by simp
  next
    case unloaded: False
    obtain v ora1 w1 where g: "getCurrencies srv (ora, w) = (Inr v, (ora1, w1))"
      using getCurrencies_resolves [of srv "(ora, w)"] by (cases "getCurrencies srv (ora, w)") auto
    have frame: "emitted w1 = emitted w" "slept w1 = slept w"
      using getCurrencies_frame [of srv ora w] g by simp_all
    show ?thesis
    proof (cases "fOracleDisabled ora")
      case True
      with g have same: "ora1 = ora" "w1 = w" by (simp_all add: getCurrencies_disabled)
      with body s unloaded g have "loop srv (ora, sleep 5000 w) = Some y" by simp
      from IH [OF this] True unloaded show ?thesis by simp
    next
      case active: False
      have req: "requests w1 = requests w @ [currencies_url]"
        using getCurrencies_requests [OF active, of srv w] g by simp
      show ?thesis
      proof (cases "fLoadedCurrencies ora1")
        case True
        with body s unloaded g have "loop srv (ora1, w1) = Some y" by simp
        from IH [OF this] True have "y = (Inr (), (ora1, w1))" by simp
        with True frame req s unloaded active show ?thesis
          by (simp add: exI [of _ 0])
      next
        case False
        with body s unloaded g have "loop srv (ora1, sleep 5000 w1) = Some y" by simp
        from IH [OF this] False obtain ora' w' n where
          y: "y = (Inr (), (ora', w'))" "fLoadedCurrencies ora'"
            "emitted w' = emitted (sleep 5000 w1)"
            "slept w' = slept (sleep 5000 w1) @ replicate n 5000"
            "requests w' = requests (sleep 5000 w1) @ replicate (n + 1) currencies_url"
          by auto
        have "slept w' = slept w @ replicate (Suc n) 5000"
          using y(4) frame by (simp add: sleep_def)
        moreover have "requests w' = requests w @ replicate (Suc n + 1) currencies_url"
          using y(5) req by (simp add: sleep_def)
        moreover have "emitted w' = emitted w"
          using y(3) frame by (simp add: sleep_def)
        ultimately show ?thesis
          using y(1,2) s unloaded active by (simp add: exI [of _ "Suc n"])
      qed
    qed
  qed
qed

lemma Oracle_new_eq:
  "Oracle_new w =
     (\<lparr>mapCurrencies =
         [(JStr ''usd'', fallback_record ''usd'' (clock_ms w div 1000)),
          (JStr ''eur'', fallback_record ''eur'' (clock_ms w div 1000)),
          (JStr ''gbp'', fallback_record ''gbp'' (clock_ms w div 1000)),
          (JStr ''btc'', fallback_record ''btc'' (clock_ms w div 1000))],
       fLoadedCurrencies = True, nOracleFailures = 0, fOracleDisabled = True\<rparr>, w)"
  by (simp add: Oracle_new_def ORACLE_ENABLED_def Oracle_constructor_def
      ensureFallbackCurrencies_def Oracle_init_def FALLBACK_CURRENCIES_def same_key_def Let_def)

lemma load_round:
  assumes "\<not> fLoadedCurrencies ora" and "snd (getCurrencies srv (ora, w)) = (ora1, w1)"
  shows "load srv (ora, w) =
     (if fLoadedCurrencies ora1
      then Some (Inr JUndefined, (ora1, w1\<lparr>emitted := emitted w1 @ load_events (mapCurrencies ora1)\<rparr>))
      else load srv (ora1, sleep 5000 w1))"
  using load_loop_round [OF assms]
  by (simp add: load_def emit_def load_events_def)

lemma load_result:
  assumes "load srv (ora, w) = Some (r, (ora', w'))"
  shows "r = Inr JUndefined \<and> fLoadedCurrencies ora'
     \<and> emitted w' = emitted w @ load_events (mapCurrencies ora')
     \<and> (\<exists>n. slept w' = slept w @ replicate n 5000
            \<and> requests w' = requests w @
                 replicate (if fLoadedCurrencies ora then 0 else n + 1) currencies_url)"
proof -
  from assms obtain y where y: "load_loop srv (ora, w) = Some y"
    by (cases "load_loop srv (ora, w)") (simp_all add: load_def)
  from load_loop_result [OF y] obtain ora1 w1 n where
    r: "y = (Inr (), (ora1, w1))" "fLoadedCurrencies ora1" "emitted w1 = emitted w"
      "slept w1 = slept w @ replicate n 5000"
      "requests w1 = requests w @ replicate (if fLoadedCurrencies ora then 0 else n + 1) currencies_url"
    by auto
  from assms y r(1) have "r = Inr JUndefined" "ora' = ora1"
    "w' = w1\<lparr>emitted := emitted w1 @ load_events (mapCurrencies ora1)\<rparr>"
    by (auto simp: load_def emit_def load_events_def)
  with r show ?thesis by auto
qed

lemma getCurrencies_500:
  assumes "\<not> fOracleDisabled ora"
  shows "snd (getCurrencies ex_srv_500 (ora, w)) =
     markOracleFailure (Reason_http 500 ''currencies'')
       (ora, w\<lparr>requests := requests w @ [currencies_url]\<rparr>)"
  using assms
  by (simp add: getCurrencies_def getCurrencies_try_def fetch_def ex_srv_500_def ok_def split_beta)

lemma ex_load_500: "load ex_srv_500 (Oracle_init, ex_world) = Some (Inr JUndefined, ex_gave_up)"
proof -
  let ?o1 = "Oracle_init\<lparr>nOracleFailures := 1\<rparr>"
  let ?w1 = "ex_world\<lparr>requests := [currencies_url],
                      warnings := [Warn_failed 1 3 (Reason_http 500 ''currencies'')]\<rparr>"
  let ?o2 = "Oracle_init\<lparr>nOracleFailures := 2\<rparr>"
  let ?w2 = "ex_world\<lparr>requests := [currencies_url, currencies_url],
                      warnings := [Warn_failed 1 3 (Reason_http 500 ''currencies''),
                                   Warn_failed 2 3 (Reason_http 500 ''currencies'')],
                      slept := [5000], clock_ms := 1700000005123\<rparr>"
  have r1: "snd (getCurrencies ex_srv_500 (Oracle_init, ex_world)) = (?o1, ?w1)"
    by (simp add: getCurrencies_500 Oracle_init_def markOracleFailure_eq ORACLE_RETRY_LIMIT_def
        ex_world_def)
  have r2: "snd (getCurrencies ex_srv_500 (?o1, sleep 5000 ?w1)) = (?o2, ?w2)"
    by (simp add: getCurrencies_500 Oracle_init_def markOracleFailure_eq ORACLE_RETRY_LIMIT_def
        ex_world_def sleep_def)
  have r3: "snd (getCurrencies ex_srv_500 (?o2, sleep 5000 ?w2)) =
      (fst ex_gave_up, (snd ex_gave_up)\<lparr>emitted := []\<rparr>)"
    by (simp add: getCurrencies_500 Oracle_init_def markOracleFailure_eq ORACLE_RETRY_LIMIT_def
        ex_world_def sleep_def disableOracle_active FALLBACK_CURRENCIES_def same_key_def
        ex_gave_up_def currencies_url_def ORACLE_BASE_def)
  have "load ex_srv_500 (Oracle_init, ex_world) = load ex_srv_500 (?o1, sleep 5000 ?w1)"
    by (subst load_round [OF _ r1]) (simp_all add: Oracle_init_def)
  also have "\<dots> = load ex_srv_500 (?o2, sleep 5000 ?w2)"
    by (subst load_round [OF _ r2]) (simp_all add: Oracle_init_def)
  also have "\<dots> = Some (Inr JUndefined, ex_gave_up)"
    by (subst load_round [OF _ r3]) (simp_all add: Oracle_init_def ex_gave_up_def load_events_def)
  finally show ?thesis .
qed

lemma keys_lowercase_set:
  "keys_lowercase m \<Longrightarrow> is_lowercase_key k \<Longrightarrow> keys_lowercase (map_set k v m)"
  by (induction m) (auto simp: keys_lowercase_def)

lemma keys_lowercase_seed:
  "keys_lowercase m \<Longrightarrow> list_all is_lowercase cs \<Longrightarrow> keys_lowercase (seed_fallback now cs m)"
  by (induction cs arbitrary: m) (simp_all add: keys_lowercase_set)

lemma FALLBACK_lowercase: "list_all is_lowercase FALLBACK_CURRENCIES"
  by (simp add: FALLBACK_CURRENCIES_def is_lowercase_def)

lemma keys_lowercase_disable:
  "keys_lowercase (mapCurrencies ora) \<Longrightarrow>
   keys_lowercase (mapCurrencies (fst (disableOracle rsn (ora, w))))"
  by (cases "fOracleDisabled ora")
     (simp_all add: disableOracle_disabled disableOracle_active keys_lowercase_seed FALLBACK_lowercase)

lemma keys_lowercase_failure:
  "keys_lowercase (mapCurrencies ora) \<Longrightarrow>
   keys_lowercase (mapCurrencies (fst (markOracleFailure rsn (ora, w))))"
  by (simp add: markOracleFailure_eq Let_def keys_lowercase_disable)

lemma keys_lowercase_getPrice:
  assumes "keys_lowercase (mapCurrencies ora)" and "is_lowercase c"
  shows "keys_lowercase (mapCurrencies (fst (snd (getPrice srv c (ora, w)))))"
  using assms
  by (simp add: getPrice_def getPrice_try_def fetch_def split_beta Let_def
      keys_lowercase_failure keys_lowercase_disable keys_lowercase_set markOracleSuccess_def
      split: fetch_result.splits body.splits sum.splits)

lemma keys_lowercase_upsert:
  "keys_lowercase m \<Longrightarrow> \<forall>x \<in> set xs. is_lowercase_key (get_own x ''currency'') \<Longrightarrow>
   keys_lowercase (snd (upsert_all xs m))"
proof (induction xs arbitrary: m)
  case Nil
  then show ?case by simp
next
  case (Cons x xs)
  then show ?case
    by (cases "read_prop x ''currency''") (auto simp: keys_lowercase_set elim: read_prop.elims)
qed

lemma keys_lowercase_getCurrencies:
  assumes "keys_lowercase (mapCurrencies ora)"
    and "\<forall>r j. srv (requests w) currencies_url = Fetch_response r \<and> body r = Body_json j \<longrightarrow>
           (\<forall>x \<in> set (elements j). is_lowercase_key (get_own x ''currency''))"
  shows "keys_lowercase (mapCurrencies (fst (snd (getCurrencies srv (ora, w)))))"
proof (cases "fOracleDisabled ora")
  case True
  with assms(1) show ?thesis by (simp add: getCurrencies_disabled)
next
  case False
  show ?thesis
  proof (cases "srv (requests w) currencies_url")
    case (Fetch_rejected e)
    with False assms(1) show ?thesis
      by (simp add: getCurrencies_def getCurrencies_try_def fetch_def split_beta Let_def
          keys_lowercase_failure)
  next
    case (Fetch_response r)
    show ?thesis
    proof (cases "body r")
      case (Body_invalid e)
      with False Fetch_response assms(1) show ?thesis
        by (simp add: getCurrencies_def getCurrencies_try_def fetch_def split_beta Let_def
            keys_lowercase_failure keys_lowercase_disable)
    next
      case (Body_json j)
      with Fetch_response assms(2)
      have "\<forall>x \<in> set (elements j). is_lowercase_key (get_own x ''currency'')" by simp
      with assms(1) have up: "keys_lowercase (snd (upsert_all (elements j) (mapCurrencies ora)))"
        by (intro keys_lowercase_upsert)
      obtain e m where um: "upsert_all (elements j) (mapCurrencies ora) = (e, m)"
        by (cases "upsert_all (elements j) (mapCurrencies ora)")
      with up have m: "keys_lowercase m" by simp
      have m': "keys_lowercase (mapCurrencies (fst (markOracleFailure rsn
                   (ora\<lparr>mapCurrencies := m, nOracleFailures := 0\<rparr>, w'))))" for rsn w'
        using m by (intro keys_lowercase_failure) simp
      from False Fetch_response Body_json assms(1) um m m' show ?thesis
        by (simp add: getCurrencies_def getCurrencies_try_def fetch_def split_beta Let_def
            keys_lowercase_failure keys_lowercase_disable markOracleSuccess_def
            split: option.splits)
    qed
  qed
qed

lemma getPrice_ok_cache:
  assumes "\<not> fOracleDisabled ora"
    and "srv (requests w) (price_url c) = Fetch_response r"
    and "ok r" and "body r = Body_json j"
  shows "mapCurrencies (fst (snd (getPrice srv c (ora, w)))) = map_set (JStr c) j (mapCurrencies ora)"
  using assms
  by (simp add: getPrice_def getPrice_try_def fetch_def split_beta Let_def markOracleSuccess_def
      markOracleFailure_eq ORACLE_RETRY_LIMIT_def split: sum.splits)

lemma getCachedPrice_fallback_only:
  "getCachedPrice c
     \<lparr>mapCurrencies =
        [(JStr ''usd'', fallback_record ''usd'' now),
         (JStr ''eur'', fallback_record ''eur'' now),
         (JStr ''gbp'', fallback_record ''gbp'' now),
         (JStr ''btc'', fallback_record ''btc'' now)],
      fLoadedCurrencies = l, nOracleFailures = n, fOracleDisabled = d\<rparr> = JNum 0"
  by (simp add: getCachedPrice_def same_key_def fallback_record_def js_or_def)

lemma set_insert_timer: "set (insert_timer t ts) = insert t (set ts)"
  by (induction ts) auto

lemma sorted_insert_timer:
  "sorted (map fst ts) \<Longrightarrow> sorted (map fst (insert_timer t ts))"
  by (induction ts) (auto simp: set_insert_timer)

lemma wakes_insert_timer:
  "wakes (insert_timer t ts) = (if snd t = Wake then 1 else 0) + wakes ts"
  by (induction ts) (auto simp: wakes_def)

lemma well_formed_new: "well_formed (AsyncInterval_new ms t least)"
  by (simp add: well_formed_def AsyncInterval_new_def loop_test_def wakes_def)

lemma well_formed_occur:
  assumes "well_formed s"
  shows "well_formed (occur e s)"
proof (cases e)
  case (Settles oc)
  with assms show ?thesis
    by (auto simp: well_formed_def after_call_def await_sleep_def setTimeout_def Let_def
        sorted_insert_timer wakes_insert_timer split: sum.splits)
next
  case Timer_fires
  show ?thesis
  proof (cases "timers s")
    case Nil
    with assms Timer_fires show ?thesis by (simp add: timer_fires_def)
  next
    case (Cons u rest)
    obtain due f where u: "u = (due, f)" by (cases u)
    from assms Cons u show ?thesis
      unfolding Timer_fires
      by (cases f)
         (auto simp: well_formed_def timer_fires_def loop_test_def wakes_def Let_def
           split: if_splits)
  qed
next
  case (Elapses ms)
  with assms show ?thesis by (simp add: well_formed_def)
next
  case (Calls_clearInterval ms)
  with assms show ?thesis
    by (simp add: well_formed_def clearInterval_def setTimeout_def sorted_insert_timer
        wakes_insert_timer)
qed

lemma well_formed_occur_all: "well_formed s \<Longrightarrow> well_formed (occur_all os s)"
  unfolding occur_all_def by (induction os arbitrary: s) (simp_all add: well_formed_occur)

lemma wakes_before_stop_mono:
  "wakes_before_stop t ts = Some j \<Longrightarrow> t \<le> t' \<Longrightarrow>
   \<exists>j'. wakes_before_stop t' ts = Some j' \<and> j' \<le> j"
proof (induction t ts arbitrary: j rule: wakes_before_stop.induct)
  case (1 t)
  then show ?case by simp
next
  case (2 t due ts)
  then show ?case by (auto split: if_splits)
next
  case (3 t due ts)
  then show ?case by auto
qed

lemma wakes_before_stop_head:
  "sorted (map fst ts) \<Longrightarrow> wakes_before_stop t ts = Some j \<Longrightarrow> \<forall>u \<in> set (take 1 ts). fst u \<le> t"
proof (induction t ts arbitrary: j rule: wakes_before_stop.induct)
  case (1 t)
  then show ?case by simp
next
  case (2 t due ts)
  then show ?case
    by (cases ts) (fastforce split: if_splits)+
next
  case (3 t due ts)
  then show ?case
    by (cases ts) fastforce+
qed

lemma wakes_before_stop_insert:
  "sorted (map fst ts) \<Longrightarrow> wakes_before_stop t ts = Some j \<Longrightarrow> t \<le> due \<Longrightarrow>
   wakes_before_stop t (insert_timer (due, f) ts) = Some j"
proof (induction t ts arbitrary: j rule: wakes_before_stop.induct)
  case (1 t)
  then show ?case by simp
next
  case (2 t due' ts)
  from wakes_before_stop_head [OF "2.prems"(1,2)] have "due' \<le> t" by simp
  with 2 show ?case by simp
next
  case (3 t due' ts)
  from wakes_before_stop_head [OF "3.prems"(1,2)] have "due' \<le> t" by simp
  with 3 show ?case by auto
qed

lemma wakes_before_stop_now:
  "\<exists>j. wakes_before_stop t (insert_timer (t, Deactivate) ts) = Some j \<and> j \<le> wakes ts"
proof (induction ts)
  case Nil
  then show ?case by simp
next
  case (Cons u ts)
  obtain due f where u: "u = (due, f)" by (cases u)
  from Cons u show ?case
    by (cases f) (auto simp: wakes_def)
qed

lemma doomed_iff:
  "doomed N s =
     ((\<not> active s \<and> invocations s \<le> N)
      \<or> (\<exists>j. wakes_before_stop (time_ms s + min_delay s) (timers s) = Some j
            \<and> invocations s + j \<le> N))"
  by (auto simp: doomed_def split: option.splits)

lemma doomed_bound: "doomed N s \<Longrightarrow> invocations s \<le> N"
  by (auto simp: doomed_iff)

lemma doomed_occur:
  assumes "sorted (map fst (timers s))" and "doomed N s"
  shows "doomed N (occur e s)"
proof (cases "active s")
  case False
  with assms(2) have n: "invocations s \<le> N" by (auto simp: doomed_iff)
  have "\<not> active (occur e s) \<and> invocations (occur e s) = invocations s"
  proof (cases e)
    case (Settles oc)
    with False show ?thesis
      by (simp add: after_call_def await_sleep_def setTimeout_def Let_def split: sum.splits)
  next
    case Timer_fires
    with False show ?thesis
      by (simp add: timer_fires_def loop_test_def Let_def split: list.splits action.splits)
  next
    case (Elapses ms)
    with False show ?thesis by simp
  next
    case (Calls_clearInterval ms)
    with False show ?thesis by (simp add: clearInterval_def setTimeout_def)
  qed
  with n show ?thesis by (simp add: doomed_iff)
next
  case True
  with assms(2) obtain j where
    j: "wakes_before_stop (time_ms s + min_delay s) (timers s) = Some j" "invocations s + j \<le> N"
    by (auto simp: doomed_iff)
  show ?thesis
  proof (cases e)
    case (Settles oc)
    have "wakes_before_stop (time_ms s + min_delay s)
            (insert_timer (time_ms s + max (timeOut s) (min_delay s), Wake) (timers s)) = Some j"
      using assms(1) j(1) by (intro wakes_before_stop_insert) simp_all
    with Settles j show ?thesis
      by (auto simp: doomed_iff after_call_def await_sleep_def setTimeout_def Let_def
          split: sum.splits)
  next
    case Timer_fires
    show ?thesis
    proof (cases "timers s")
      case Nil
      with j show ?thesis by simp
    next
      case (Cons u rest)
      obtain due f where u: "u = (due, f)" by (cases u)
      show ?thesis
      proof (cases f)
        case Deactivate
        with Timer_fires Cons u j show ?thesis
          by (simp add: doomed_iff timer_fires_def Let_def)
      next
        case Wake
        with Cons u j(1) obtain j0 where
          j0: "j = Suc j0" "wakes_before_stop (time_ms s + min_delay s) rest = Some j0"
          by auto
        from wakes_before_stop_mono [OF j0(2), of "max (time_ms s) due + min_delay s"] obtain j' where
          j': "wakes_before_stop (max (time_ms s) due + min_delay s) rest = Some j'" "j' \<le> j0"
          by auto
        with Timer_fires Cons u Wake True j(2) j0(1) show ?thesis
          by (simp add: doomed_iff timer_fires_def loop_test_def Let_def)
      qed
    qed
  next
    case (Elapses ms)
    from wakes_before_stop_mono [OF j(1), of "time_ms s + ms + min_delay s"] obtain j' where
      "wakes_before_stop (time_ms s + ms + min_delay s) (timers s) = Some j'" "j' \<le> j"
      by auto
    with Elapses j(2) show ?thesis by (auto simp: doomed_iff)
  next
    case (Calls_clearInterval ms)
    have "wakes_before_stop (time_ms s + min_delay s)
            (insert_timer (time_ms s + max ms (min_delay s), Deactivate) (timers s)) = Some j"
      using assms(1) j(1) by (intro wakes_before_stop_insert) simp_all
    with Calls_clearInterval j(2) show ?thesis
      by (auto simp: doomed_iff clearInterval_def setTimeout_def)
  qed
qed

lemma doomed_occur_all:
  "well_formed s \<Longrightarrow> doomed N s \<Longrightarrow> doomed N (occur_all os s)"
proof (induction os arbitrary: s)
  case Nil
  then show ?case by (simp add: occur_all_def)
next
  case (Cons e os)
  have "well_formed (occur e s)" using Cons.prems(1) by (rule well_formed_occur)
  moreover have "doomed N (occur e s)"
    using Cons.prems by (intro doomed_occur) (simp_all add: well_formed_def)
  ultimately have "doomed N (occur_all os (occur e s))" by (rule Cons.IH)
  then show ?case by (simp add: occur_all_def)
qed

lemma doomed_clearInterval_0:
  assumes "well_formed s"
  shows "doomed (invocations s + 1) (clearInterval 0 s)"
proof -
  obtain j where "wakes_before_stop (time_ms s + min_delay s)
                    (insert_timer (time_ms s + min_delay s, Deactivate) (timers s)) = Some j"
    and "j \<le> wakes (timers s)"
    using wakes_before_stop_now by blast
  moreover have "wakes (timers s) \<le> 1"
    using assms by (simp add: well_formed_def)
  ultimately show ?thesis
    by (auto simp: doomed_iff clearInterval_def setTimeout_def)
qed

lemma well_formed_clearInterval: "well_formed s \<Longrightarrow> well_formed (clearInterval ms s)"
  using well_formed_occur [of s "Calls_clearInterval ms"] by simp

lemma at_most_one_more:
  assumes "well_formed s"
  shows "invocations (occur_all os (clearInterval 0 s)) \<le> invocations s + 1"
  using assms
  by (intro doomed_bound doomed_occur_all well_formed_clearInterval doomed_clearInterval_0)

text \<open>While nobody calls \<open>clearInterval\<close>, no timer clears the flag.\<close>

lemma uncleared_occur:
  assumes "active s \<and> phase s \<noteq> Stopped \<and> (\<forall>u \<in> set (timers s). snd u = Wake)"
    and "\<not> is_clear e"
  shows "active (occur e s) \<and> phase (occur e s) \<noteq> Stopped
         \<and> (\<forall>u \<in> set (timers (occur e s)). snd u = Wake)"
proof (cases e)
  case (Settles oc)
  with assms(1) show ?thesis
    by (auto simp: after_call_def await_sleep_def setTimeout_def Let_def set_insert_timer
        split: sum.splits)
next
  case Timer_fires
  show ?thesis
  proof (cases "timers s")
    case Nil
    with assms(1) Timer_fires show ?thesis by (simp add: timer_fires_def)
  next
    case (Cons u rest)
    obtain due f where u: "u = (due, f)" by (cases u)
    with assms(1) Cons have "f = Wake" by simp
    with assms(1) Cons u Timer_fires show ?thesis
      by (simp add: timer_fires_def loop_test_def Let_def)
  qed
next
  case (Elapses ms)
  with assms(1) show ?thesis by simp
next
  case (Calls_clearInterval ms)
  with assms(2) show ?thesis by simp
qed

lemma uncleared_occur_all:
  assumes "active s \<and> phase s \<noteq> Stopped \<and> (\<forall>u \<in> set (timers s). snd u = Wake)"
    and "\<forall>e \<in> set os. \<not> is_clear e"
  shows "active (occur_all os s) \<and> phase (occur_all os s) \<noteq> Stopped"
  using assms
proof (induction os arbitrary: s)
  case Nil
  then show ?case by (simp add: occur_all_def)
next
  case (Cons e os)
  from Cons.prems have "active (occur e s) \<and> phase (occur e s) \<noteq> Stopped
         \<and> (\<forall>u \<in> set (timers (occur e s)). snd u = Wake)"
    by (intro uncleared_occur) simp_all
  from Cons.IH [OF this] Cons.prems(2) show ?case
    by (simp add: occur_all_def)
qed

lemma one_round:
  assumes "active s" and "phase s = Calling" and "timers s = []"
  shows "occur_all [Settles oc, Timer_fires] s =
     s\<lparr>invocations := invocations s + 1, console := console s @ caught oc,
       time_ms := time_ms s + max (timeOut s) (min_delay s)\<rparr>"
  using assms
  by (cases oc)
     (simp_all add: occur_all_def after_call_def await_sleep_def setTimeout_def timer_fires_def
       loop_test_def caught_def Let_def)

lemma occur_all_append: "occur_all (os @ os') s = occur_all os' (occur_all os s)"
  by (simp add: occur_all_def)

lemma rounds_state:
  assumes "active s" and "phase s = Calling" and "timers s = []"
  shows "occur_all (rounds ocs) s =
     s\<lparr>invocations := invocations s + length ocs, console := console s @ concat (map caught ocs),
       time_ms := time_ms s + length ocs * max (timeOut s) (min_delay s)\<rparr>"
  using assms
proof (induction ocs arbitrary: s)
  case Nil
  then show ?case by (simp add: rounds_def occur_all_def)
next
  case (Cons oc ocs)
  let ?s1 = "s\<lparr>invocations := invocations s + 1, console := console s @ caught oc,
       time_ms := time_ms s + max (timeOut s) (min_delay s)\<rparr>"
  have "occur_all (rounds (oc # ocs)) s = occur_all (rounds ocs) (occur_all [Settles oc, Timer_fires] s)"
    using occur_all_append [of "[Settles oc, Timer_fires]" "rounds ocs" s]
    by (simp add: rounds_def)
  also have "\<dots> = occur_all (rounds ocs) ?s1"
    using Cons.prems by (simp add: one_round)
  also have "\<dots> = ?s1\<lparr>invocations := invocations ?s1 + length ocs,
       console := console ?s1 @ concat (map caught ocs),
       time_ms := time_ms ?s1 + length ocs * max (timeOut ?s1) (min_delay ?s1)\<rparr>"
    using Cons.prems by (intro Cons.IH) simp_all
  finally show ?case by simp
qed

lemma flag_cleared_by_timer:
  assumes "active s" and "\<not> active (occur e s)"
  shows "e = Timer_fires \<and> (\<exists>due rest. timers s = (due, Deactivate) # rest
           \<and> due \<le> time_ms (occur e s))"
proof (cases e)
  case (Settles oc)
  with assms show ?thesis
    by (auto simp: after_call_def await_sleep_def setTimeout_def Let_def split: sum.splits if_splits)
next
  case Timer_fires
  with assms show ?thesis
    by (auto simp: timer_fires_def loop_test_def Let_def split: list.splits action.splits if_splits)
next
  case (Elapses ms)
  with assms show ?thesis by simp
next
  case (Calls_clearInterval ms)
  with assms show ?thesis by (simp add: clearInterval_def setTimeout_def)
qed

text \<open>
  Every path of \<open>getPrice\<close> other than the one that returns the fetched value returns
  the cached price, as the cache is when the call returns.
\<close>

lemma getPrice_cached_or_fetched:
  "fst (getPrice srv c (ora, w)) = Inr (getCachedPrice c (fst (snd (getPrice srv c (ora, w)))))
   \<or> (\<exists>r j v. \<not> fOracleDisabled ora \<and> srv (requests w) (price_url c) = Fetch_response r
         \<and> ok r \<and> body r = Body_json j \<and> read_prop j ''value'' = Inr v
         \<and> fst (getPrice srv c (ora, w)) = Inr v)"
  by (simp add: getPrice_def getPrice_try_def fetch_def split_beta Let_def
      split: fetch_result.splits body.splits sum.splits)

text \<open>
  On the paths of \<open>getPrice\<close> that never get to the body (a rejected fetch, a status
  outside 200 to 299, a body that is no JSON) the cache is the one from before the call,
  but for fallback records, and the price returned is the one cached before the call.
\<close>

lemma getPrice_failure_keeps_price:
  assumes "\<forall>r j. srv (requests w) (price_url c) = Fetch_response r \<and> ok r \<longrightarrow> body r \<noteq> Body_json j"
  shows "fst (getPrice srv c (ora, w)) = Inr (getCachedPrice c ora)"
proof (cases "fOracleDisabled ora")
  case True
  then show ?thesis by (simp add: getPrice_disabled)
next
  case False
  have price: "getCachedPrice c (fst (markOracleFailure rsn (ora, w'))) = getCachedPrice c ora"
    "getCachedPrice c (fst (disableOracle rsn (ora, w'))) = getCachedPrice c ora" for rsn w'
    by (simp_all add: markOracleFailure_price disableOracle_price)
  from False assms show ?thesis
    by (auto simp: getPrice_def getPrice_try_def fetch_def split_beta Let_def price
        split: fetch_result.splits body.splits sum.splits)
qed

lemma getCurrencies_cached_or_fetched:
  "fst (getCurrencies srv (ora, w)) = Inr (getCachedCurrencies (fst (snd (getCurrencies srv (ora, w)))))
   \<or> (\<exists>r xs. \<not> fOracleDisabled ora \<and> srv (requests w) currencies_url = Fetch_response r
         \<and> ok r \<and> body r = Body_json (JArr xs) \<and> xs \<noteq> []
         \<and> fst (upsert_all xs (mapCurrencies ora)) = None
         \<and> fst (getCurrencies srv (ora, w)) = Inr (JArr xs))"
proof (cases "fOracleDisabled ora")
  case True
  then show ?thesis by (simp add: getCurrencies_disabled)
next
  case False
  show ?thesis
  proof (cases "srv (requests w) currencies_url")
    case (Fetch_rejected e)
    with False show ?thesis
      by (simp add: getCurrencies_def getCurrencies_try_def fetch_def split_beta Let_def)
  next
    case (Fetch_response r)
    show ?thesis
    proof (cases "body r")
      case (Body_invalid e)
      with False Fetch_response show ?thesis
        by (simp add: getCurrencies_def getCurrencies_try_def fetch_def split_beta Let_def)
    next
      case (Body_json j)
      show ?thesis
      proof (cases j)
        case (JArr xs)
        obtain e m where u: "upsert_all xs (mapCurrencies ora) = (e, m)"
          by (cases "upsert_all xs (mapCurrencies ora)")
        with False Fetch_response Body_json JArr show ?thesis
          by (cases e)
             (simp_all add: getCurrencies_def getCurrencies_try_def fetch_def split_beta Let_def
               markOracleSuccess_def)
      qed (use False Fetch_response Body_json in
           \<open>simp_all add: getCurrencies_def getCurrencies_try_def fetch_def split_beta Let_def\<close>)
    qed
  qed
qed

lemma upsert_all_readable:
  "\<forall>x \<in> set xs. x \<noteq> JNull \<and> x \<noteq> JUndefined \<Longrightarrow> fst (upsert_all xs m) = None"
proof (induction xs arbitrary: m)
  case Nil
  then show ?case by simp
next
  case (Cons x xs)
  then show ?case by (cases x) simp_all
qed

text \<open>
  A round of \<open>load\<close> on an active oracle whose answer is clean either sets the loaded
  flag or counts one more failure, below the limit.
\<close>

lemma clean_round:
  assumes "\<not> fOracleDisabled ora" and "clean (srv (requests w) currencies_url)"
  shows "fLoadedCurrencies (fst (snd (getCurrencies srv (ora, w))))
     \<or> (\<not> fOracleDisabled (fst (snd (getCurrencies srv (ora, w))))
        \<and> nOracleFailures (fst (snd (getCurrencies srv (ora, w)))) = nOracleFailures ora + 1
        \<and> nOracleFailures ora + 1 < ORACLE_RETRY_LIMIT)"
proof (cases "srv (requests w) currencies_url")
  case (Fetch_rejected e)
  with assms(1) show ?thesis
    by (auto simp: getCurrencies_def getCurrencies_try_def fetch_def split_beta Let_def debugWarn_def
        markOracleFailure_sel)
next
  case (Fetch_response r)
  show ?thesis
  proof (cases "body r")
    case (Body_invalid e)
    with assms(1) Fetch_response show ?thesis
      by (auto simp: getCurrencies_def getCurrencies_try_def fetch_def split_beta Let_def
          debugWarn_def markOracleFailure_sel disableOracle_sel)
  next
    case (Body_json j)
    with assms(2) Fetch_response
    have "fst (upsert_all (elements j) (mapCurrencies ora)) = None"
      by (intro upsert_all_readable) simp
    then obtain m where "upsert_all (elements j) (mapCurrencies ora) = (None, m)"
      by (cases "upsert_all (elements j) (mapCurrencies ora)") simp
    with assms(1) Fetch_response Body_json show ?thesis
      by (auto simp: getCurrencies_def getCurrencies_try_def fetch_def split_beta Let_def
          debugWarn_def markOracleFailure_sel disableOracle_sel markOracleSuccess_def)
  qed
qed

text \<open>
  So \<open>load\<close> returns, after three rounds at most, when every answer is clean: the only
  way for it to run forever from a state in which a disabled oracle has loaded is a list
  with an element that cannot be read.
\<close>

lemma load_returns_on_clean_answers:
  assumes "\<forall>history. clean (srv history currencies_url)"
    and "fOracleDisabled ora \<longrightarrow> fLoadedCurrencies ora"
  shows "\<exists>y. load srv (ora, w) = Some y"
proof -
  have "\<exists>y. load_loop srv (ora, w) = Some y"
    using assms(2)
  proof (induction "ORACLE_RETRY_LIMIT - nOracleFailures ora" arbitrary: ora w rule: less_induct)
    case less
    show ?case
    proof (cases "fLoadedCurrencies ora")
      case True
      then show ?thesis by (simp add: load_loop_loaded)
    next
      case False
      with less.prems have active: "\<not> fOracleDisabled ora" by blast
      obtain ora1 w1 where g: "snd (getCurrencies srv (ora, w)) = (ora1, w1)"
        by (cases "snd (getCurrencies srv (ora, w))")
      have round: "load_loop srv (ora, w) =
         (if fLoadedCurrencies ora1 then Some (Inr (), (ora1, w1))
          else load_loop srv (ora1, sleep 5000 w1))"
        using False g by (rule load_loop_round)
      show ?thesis
      proof (cases "fLoadedCurrencies ora1")
        case True
        with round show ?thesis by simp
      next
        case unloaded: False
        from clean_round [OF active, of srv w] assms(1) g unloaded
        have next_round: "\<not> fOracleDisabled ora1" "nOracleFailures ora1 = nOracleFailures ora + 1"
          "nOracleFailures ora + 1 < ORACLE_RETRY_LIMIT"
          by simp_all
        then have "ORACLE_RETRY_LIMIT - nOracleFailures ora1 < ORACLE_RETRY_LIMIT - nOracleFailures ora"
          by simp
        from less.hyps [OF this, of "sleep 5000 w1"] next_round(1)
        have "\<exists>y. load_loop srv (ora1, sleep 5000 w1) = Some y" by simp
        with round unloaded show ?thesis by simp
      qed
    qed
  qed
  then show ?thesis
    by (auto simp: load_def Let_def split: prod.splits sum.splits)
qed

text \<open>
  The same order of steps in \<open>getPrice\<close>: answered OK with the body \<open>null\<close>, it has
  put \<open>null\<close> in the place of the cached record before the read of \<open>value\<close> throws,
  and so returns 0 where 5 was cached before the call.
\<close>

lemma getPrice_null_body_overwrites:
  "getCachedPrice ''usd'' ex_holding_usd = JNum 5
   \<and> fst (getPrice ex_srv_null ''usd'' (ex_holding_usd, ex_world)) = Inr (JNum 0)
   \<and> mapCurrencies (fst (snd (getPrice ex_srv_null ''usd'' (ex_holding_usd, ex_world))))
       = [(JStr ''usd'', JNull)]
   \<and> nOracleFailures (fst (snd (getPrice ex_srv_null ''usd'' (ex_holding_usd, ex_world)))) = 1"
  by (simp add: getPrice_def getPrice_try_def fetch_def ex_srv_null_def ok_def ex_holding_usd_def
      Oracle_init_def ex_usd5_def markOracleSuccess_def markOracleFailure_eq ORACLE_RETRY_LIMIT_def
      getCachedPrice_def js_or_def same_key_def Let_def debugWarn_def)

text \<open>
  A fetch that is rejected, an answer with a status outside 200 to 299 other than 404 and
  a body that is no JSON each count one failure.
\<close>

lemma getPrice_failure_counted:
  assumes "\<not> fOracleDisabled ora" and "\<not> is_404 (srv (requests w) (price_url c))"
    and "\<forall>r j. srv (requests w) (price_url c) = Fetch_response r \<and> ok r \<longrightarrow> body r \<noteq> Body_json j"
  shows "nOracleFailures (fst (snd (getPrice srv c (ora, w)))) = nOracleFailures ora + 1"
  using assms
  by (auto simp: getPrice_def getPrice_try_def fetch_def split_beta Let_def markOracleFailure_sel
      split: fetch_result.splits body.splits sum.splits)

lemma getCurrencies_failure_counted:
  assumes "\<not> fOracleDisabled ora" and "\<not> is_404 (srv (requests w) currencies_url)"
    and "\<forall>r j. srv (requests w) currencies_url = Fetch_response r \<and> ok r \<longrightarrow> body r \<noteq> Body_json j"
  shows "nOracleFailures (fst (snd (getCurrencies srv (ora, w)))) = nOracleFailures ora + 1"
  using assms
  by (auto simp: getCurrencies_def getCurrencies_try_def fetch_def split_beta Let_def
      markOracleFailure_sel split: fetch_result.splits body.splits sum.splits)

lemma foldl_upsert_keeps_key:
  "map_has m k \<Longrightarrow> map_has (foldl (\<lambda>m x. map_set (get_own x ''currency'') x m) m rs) k"
  by (induction rs arbitrary: m) (simp_all add: map_has_set)

lemma foldl_upsert_has_key:
  "x \<in> set rs \<Longrightarrow> \<not> is_ref (get_own x ''currency'') \<Longrightarrow>
   map_has (foldl (\<lambda>m x. map_set (get_own x ''currency'') x m) m rs) (get_own x ''currency'')"
proof (induction rs arbitrary: m)
  case Nil
  then show ?case by simp
next
  case (Cons y rs)
  show ?case
  proof (cases "x = y")
    case True
    with Cons.prems(2) show ?thesis
      by (simp add: foldl_upsert_keeps_key map_has_set same_key_def)
  next
    case False
    with Cons show ?thesis by simp
  qed
qed

lemma is_Currency_key: "is_Currency x \<Longrightarrow> \<not> is_ref (get_own x ''currency'')"
  using is_Currency_fields [of x] by auto

lemma getCurrencies_ok_cache:
  assumes "\<not> fOracleDisabled ora"
    and "srv (requests w) currencies_url = Fetch_response r"
    and "ok r" and "body r = Body_json (JArr rs)" and "rs \<noteq> []"
    and "\<forall>x \<in> set rs. is_Currency x"
  shows "mapCurrencies (fst (snd (getCurrencies srv (ora, w)))) =
     foldl (\<lambda>m x. map_set (get_own x ''currency'') x m) (mapCurrencies ora) rs"
proof -
  have "upsert_all rs (mapCurrencies ora) =
      (None, foldl (\<lambda>m x. map_set (get_own x ''currency'') x m) (mapCurrencies ora) rs)"
    using assms(6) by (rule upsert_all_records)
  from getCurrencies_success [where srv = srv and w = w, OF assms(1-5) this] show ?thesis by simp
qed

section \<open>Single prices\<close>

text \<open>
  Claim C1, as the code has it. When an active oracle's \<open>getPrice(c)\<close> receives an OK
  response whose body is a Currency record, it sets the failure counter to 0, stores the
  record in the cache under the requested code \<open>c\<close> and returns the record's value. The
  record's own \<open>currency\<close> field plays no part: when it differs from \<open>c\<close>, the entry
  under that field is what it was before the call.
\<close>

theorem getPrice_ok_keyed_by_request:
  assumes "\<not> fOracleDisabled ora"
    and "srv (requests w) (price_url c) = Fetch_response r"
    and "ok r" and "body r = Body_json j" and "is_Currency j"
  shows "getPrice srv c (ora, w) =
           (Inr (get_own j ''value''),
            (ora\<lparr>mapCurrencies := map_set (JStr c) j (mapCurrencies ora), nOracleFailures := 0\<rparr>,
             w\<lparr>requests := requests w @ [price_url c]\<rparr>))
     \<and> map_get (map_set (JStr c) j (mapCurrencies ora)) (JStr c) = j
     \<and> (\<forall>d. get_own j ''currency'' = JStr d \<and> d \<noteq> c \<longrightarrow>
           map_has (map_set (JStr c) j (mapCurrencies ora)) (JStr d)
             = map_has (mapCurrencies ora) (JStr d)
         \<and> map_get (map_set (JStr c) j (mapCurrencies ora)) (JStr d)
             = map_get (mapCurrencies ora) (JStr d))"
proof -
  have "read_prop j ''value'' = Inr (get_own j ''value'')"
    using assms(5) by (rule is_Currency_read)
  with assms have "getPrice srv c (ora, w) =
           (Inr (get_own j ''value''),
            (ora\<lparr>mapCurrencies := map_set (JStr c) j (mapCurrencies ora), nOracleFailures := 0\<rparr>,
             w\<lparr>requests := requests w @ [price_url c]\<rparr>))"
    by (intro getPrice_success)
  then show ?thesis
    by (simp add: map_get_set map_has_set same_key_def)
qed

theorem getPrice_ok_keyed_by_request_witness:
  "\<not> fOracleDisabled Oracle_init
   \<and> ex_srv_eur2 (requests ex_world) (price_url ''usd'') = Fetch_response ex_ok_eur2
   \<and> ok ex_ok_eur2 \<and> body ex_ok_eur2 = Body_json ex_eur2 \<and> is_Currency ex_eur2
   \<and> get_own ex_eur2 ''currency'' = JStr ''eur''
   \<and> getPrice ex_srv_eur2 ''usd'' (Oracle_init, ex_world) =
       (Inr (JNum 2),
        (\<lparr>mapCurrencies = [(JStr ''usd'', ex_eur2)], fLoadedCurrencies = False,
          nOracleFailures = 0, fOracleDisabled = False\<rparr>,
         ex_world\<lparr>requests := [''/oracle/api/v1/price/usd'']\<rparr>))
   \<and> map_get (map_set (JStr ''usd'') ex_eur2 (mapCurrencies Oracle_init)) (JStr ''eur'')
       = map_get (mapCurrencies Oracle_init) (JStr ''eur'')"
proof -
  have h: "\<not> fOracleDisabled Oracle_init"
    "ex_srv_eur2 (requests ex_world) (price_url ''usd'') = Fetch_response ex_ok_eur2"
    "ok ex_ok_eur2" "body ex_ok_eur2 = Body_json ex_eur2" "is_Currency ex_eur2"
    by (simp_all add: Oracle_init_def ex_srv_eur2_def ok_def ex_ok_eur2_def ex_eur2_def)
  have d: "get_own ex_eur2 ''currency'' = JStr ''eur'' \<and> ''eur'' \<noteq> ''usd''"
    by (simp add: ex_eur2_def)
  note t = getPrice_ok_keyed_by_request
    [where srv = ex_srv_eur2 and w = ex_world and c = "''usd''", OF h]
  from t d have "map_get (map_set (JStr ''usd'') ex_eur2 (mapCurrencies Oracle_init)) (JStr ''eur'')
       = map_get (mapCurrencies Oracle_init) (JStr ''eur'')"
    by blast
  with t h d show ?thesis
    by (simp add: Oracle_init_def ex_world_def price_url_def ORACLE_BASE_def)
       (simp add: ex_eur2_def)
qed

text \<open>
  Claim C1, as the specification words it, fails: asked for \<open>usd\<close> and answered with a
  record whose \<open>currency\<close> is \<open>eur\<close>, \<open>getPrice\<close> leaves no entry under \<open>eur\<close>
  and stores the record under \<open>usd\<close>.
\<close>

theorem getPrice_record_field_not_key:
  "is_Currency ex_eur2 \<and> get_own ex_eur2 ''currency'' = JStr ''eur''
   \<and> \<not> map_has (mapCurrencies (fst (snd (getPrice ex_srv_eur2 ''usd'' (Oracle_init, ex_world)))))
         (JStr ''eur'')
   \<and> map_get (mapCurrencies (fst (snd (getPrice ex_srv_eur2 ''usd'' (Oracle_init, ex_world)))))
         (JStr ''usd'') = ex_eur2"
  by (simp add: getPrice_def getPrice_try_def fetch_def Oracle_init_def ex_world_def
      ex_srv_eur2_def ex_ok_eur2_def ok_def markOracleSuccess_def ex_eur2_def same_key_def)

section \<open>The state machine\<close>

text \<open>
  Claim C2. An instance is constructed disabled exactly when \<open>ORACLE_ENABLED\<close> is false.
  A call of \<open>getPrice\<close> or \<open>getCurrencies\<close> on an active instance leaves it disabled
  exactly when its fetch was answered with status 404, whatever the failure counter was,
  or the failure counter has reached \<open>ORACLE_RETRY_LIMIT = 3\<close>; a rejected fetch, a
  status outside 200 to 299 other than 404 and a body that is no JSON each raise the
  counter by one. On a disabled instance
  both calls return the cached data and change nothing, so they fetch nothing and the
  instance stays disabled; and whatever a client calls from then on, the instance is the
  same afterwards and the list of requests has not grown.
\<close>

theorem oracle_disabled_once_and_for_all:
  "fOracleDisabled (fst (Oracle_constructor enabled w0)) = (\<not> enabled)
   \<and> ORACLE_RETRY_LIMIT = 3
   \<and> (\<not> fOracleDisabled ora \<longrightarrow>
        fOracleDisabled (fst (snd (getPrice srv c (ora, w)))) =
          (is_404 (srv (requests w) (price_url c))
           \<or> ORACLE_RETRY_LIMIT \<le> nOracleFailures (fst (snd (getPrice srv c (ora, w)))))
      \<and> fOracleDisabled (fst (snd (getCurrencies srv (ora, w)))) =
          (is_404 (srv (requests w) currencies_url)
           \<or> ORACLE_RETRY_LIMIT \<le> nOracleFailures (fst (snd (getCurrencies srv (ora, w))))))
   \<and> (fOracleDisabled ora \<longrightarrow>
        getPrice srv c (ora, w) = (Inr (getCachedPrice c ora), (ora, w))
      \<and> getCurrencies srv (ora, w) = (Inr (getCachedCurrencies ora), (ora, w)))
   \<and> (fOracleDisabled ora \<and> fLoadedCurrencies ora \<longrightarrow>
        (\<exists>w'. run srv calls (ora, w) = Some (map (cached_answer ora) calls, (ora, w'))
              \<and> requests w' = requests w))
   \<and> (\<not> fOracleDisabled ora \<and> \<not> is_404 (srv (requests w) (price_url c))
        \<and> (\<forall>r j. srv (requests w) (price_url c) = Fetch_response r \<and> ok r \<longrightarrow>
               body r \<noteq> Body_json j) \<longrightarrow>
        nOracleFailures (fst (snd (getPrice srv c (ora, w)))) = nOracleFailures ora + 1)
   \<and> (\<not> fOracleDisabled ora \<and> \<not> is_404 (srv (requests w) currencies_url)
        \<and> (\<forall>r j. srv (requests w) currencies_url = Fetch_response r \<and> ok r \<longrightarrow>
               body r \<noteq> Body_json j) \<longrightarrow>
        nOracleFailures (fst (snd (getCurrencies srv (ora, w)))) = nOracleFailures ora + 1)"
proof (intro conjI impI)
  show "fOracleDisabled (fst (Oracle_constructor enabled w0)) = (\<not> enabled)"
    by (rule Oracle_constructor_disabled)
  show "ORACLE_RETRY_LIMIT = 3"
    by (rule ORACLE_RETRY_LIMIT_def)
next
  assume "\<not> fOracleDisabled ora"
  then show "fOracleDisabled (fst (snd (getPrice srv c (ora, w)))) =
          (is_404 (srv (requests w) (price_url c))
           \<or> ORACLE_RETRY_LIMIT \<le> nOracleFailures (fst (snd (getPrice srv c (ora, w)))))"
    by (rule getPrice_disabled_iff)
next
  assume "\<not> fOracleDisabled ora"
  then show "fOracleDisabled (fst (snd (getCurrencies srv (ora, w)))) =
          (is_404 (srv (requests w) currencies_url)
           \<or> ORACLE_RETRY_LIMIT \<le> nOracleFailures (fst (snd (getCurrencies srv (ora, w)))))"
    by (rule getCurrencies_disabled_iff)
next
  assume "fOracleDisabled ora"
  then show "getPrice srv c (ora, w) = (Inr (getCachedPrice c ora), (ora, w))"
    by (rule getPrice_disabled)
next
  assume "fOracleDisabled ora"
  then show "getCurrencies srv (ora, w) = (Inr (getCachedCurrencies ora), (ora, w))"
    by (rule getCurrencies_disabled)
next
  assume "fOracleDisabled ora \<and> fLoadedCurrencies ora"
  then have "run srv calls (ora, w) =
     Some (map (cached_answer ora) calls,
           (ora, w\<lparr>emitted := emitted w @ concat (map (events_of ora) calls)\<rparr>))"
    by (intro run_disabled) simp_all
  then show "\<exists>w'. run srv calls (ora, w) = Some (map (cached_answer ora) calls, (ora, w'))
              \<and> requests w' = requests w"
    by simp
next
  assume "\<not> fOracleDisabled ora \<and> \<not> is_404 (srv (requests w) (price_url c))
        \<and> (\<forall>r j. srv (requests w) (price_url c) = Fetch_response r \<and> ok r \<longrightarrow>
               body r \<noteq> Body_json j)"
  then show "nOracleFailures (fst (snd (getPrice srv c (ora, w)))) = nOracleFailures ora + 1"
    by (intro getPrice_failure_counted) blast+
next
  assume "\<not> fOracleDisabled ora \<and> \<not> is_404 (srv (requests w) currencies_url)
        \<and> (\<forall>r j. srv (requests w) currencies_url = Fetch_response r \<and> ok r \<longrightarrow>
               body r \<noteq> Body_json j)"
  then show "nOracleFailures (fst (snd (getCurrencies srv (ora, w)))) = nOracleFailures ora + 1"
    by (intro getCurrencies_failure_counted) blast+
qed

theorem oracle_disabled_once_and_for_all_witness:
  "fOracleDisabled (fst (Oracle_constructor False ex_world))
   \<and> \<not> fOracleDisabled Oracle_init
   \<and> is_404 (ex_srv_404 (requests ex_world) (price_url ''usd''))
   \<and> nOracleFailures (fst (snd (getPrice ex_srv_404 ''usd'' (Oracle_init, ex_world)))) = 0
   \<and> fOracleDisabled (fst (snd (getPrice ex_srv_404 ''usd'' (Oracle_init, ex_world))))
   \<and> nOracleFailures (fst (snd (getPrice ex_srv_500 ''usd'' (Oracle_init, ex_world)))) = 1
   \<and> nOracleFailures (fst (snd (getCurrencies ex_srv_500 (Oracle_init, ex_world)))) = 1
   \<and> fOracleDisabled (fst ex_after_three_500) \<and> fLoadedCurrencies (fst ex_after_three_500)
   \<and> length (requests (snd ex_after_three_500)) = 3
   \<and> fst (getPrice ex_srv_500 ''usd'' ex_after_three_500) = Inr (JNum 0)
   \<and> snd (getPrice ex_srv_500 ''usd'' ex_after_three_500) = ex_after_three_500
   \<and> snd (getCurrencies ex_srv_500 ex_after_three_500) = ex_after_three_500
   \<and> map_option (\<lambda>x. requests (snd (snd x)))
        (run ex_srv_500 [Call_getPrice ''eur'', Call_load, Call_getCurrencies] ex_after_three_500)
       = Some (requests (snd ex_after_three_500))"
proof -
  have active: "\<not> fOracleDisabled Oracle_init"
    by (simp add: Oracle_init_def)
  have nf: "is_404 (ex_srv_404 (requests ex_world) (price_url ''usd''))"
    by (simp add: ex_srv_404_def)
  have zero: "nOracleFailures (fst (snd (getPrice ex_srv_404 ''usd'' (Oracle_init, ex_world)))) = 0"
    by (simp add: getPrice_def getPrice_try_def fetch_def ex_srv_404_def ok_def Oracle_init_def
        disableOracle_sel split_beta)
  have dis: "fOracleDisabled (fst ex_after_three_500)" "fLoadedCurrencies (fst ex_after_three_500)"
    "length (requests (snd ex_after_three_500)) = 3"
    by (simp_all add: ex_after_three_500_eq)
  have price: "getCachedPrice ''usd'' (fst ex_after_three_500) = JNum 0"
    by (simp add: ex_after_three_500_eq getCachedPrice_def same_key_def fallback_record_def js_or_def)
  have failing: "\<not> is_404 (ex_srv_500 (requests ex_world) (price_url ''usd''))"
    "\<forall>r j. ex_srv_500 (requests ex_world) (price_url ''usd'') = Fetch_response r \<and> ok r \<longrightarrow>
       body r \<noteq> Body_json j"
    "\<not> is_404 (ex_srv_500 (requests ex_world) currencies_url)"
    "\<forall>r j. ex_srv_500 (requests ex_world) currencies_url = Fetch_response r \<and> ok r \<longrightarrow>
       body r \<noteq> Body_json j"
    by (auto simp: ex_srv_500_def)
  have init: "nOracleFailures Oracle_init = 0"
    by (simp add: Oracle_init_def)
  note a = oracle_disabled_once_and_for_all
    [where enabled = False and ?w0.0 = ex_world and ora = Oracle_init and srv = ex_srv_404
       and c = "''usd''" and w = ex_world and calls = "[]"]
  note b = oracle_disabled_once_and_for_all
    [where enabled = False and ?w0.0 = ex_world and ora = "fst ex_after_three_500"
       and srv = ex_srv_500 and c = "''usd''" and w = "snd ex_after_three_500"
       and calls = "[Call_getPrice ''eur'', Call_load, Call_getCurrencies]"]
  note c = oracle_disabled_once_and_for_all
    [where enabled = False and ?w0.0 = ex_world and ora = Oracle_init and srv = ex_srv_500
       and c = "''usd''" and w = ex_world and calls = "[]"]
  from a active nf have "fOracleDisabled (fst (Oracle_constructor False ex_world))"
    and "fOracleDisabled (fst (snd (getPrice ex_srv_404 ''usd'' (Oracle_init, ex_world))))"
    by simp_all
  moreover from b dis have
    "getPrice ex_srv_500 ''usd'' ex_after_three_500
       = (Inr (getCachedPrice ''usd'' (fst ex_after_three_500)), ex_after_three_500)"
    "getCurrencies ex_srv_500 ex_after_three_500
       = (Inr (getCachedCurrencies (fst ex_after_three_500)), ex_after_three_500)"
    by simp_all
  moreover from b dis obtain w' where
    "run ex_srv_500 [Call_getPrice ''eur'', Call_load, Call_getCurrencies]
        (fst ex_after_three_500, snd ex_after_three_500)
      = Some (map (cached_answer (fst ex_after_three_500))
                [Call_getPrice ''eur'', Call_load, Call_getCurrencies],
              (fst ex_after_three_500, w'))"
    "requests w' = requests (snd ex_after_three_500)"
    by blast
  then have "map_option (\<lambda>x. requests (snd (snd x)))
        (run ex_srv_500 [Call_getPrice ''eur'', Call_load, Call_getCurrencies] ex_after_three_500)
       = Some (requests (snd ex_after_three_500))"
    by simp
  moreover from c active failing init have
    "nOracleFailures (fst (snd (getPrice ex_srv_500 ''usd'' (Oracle_init, ex_world)))) = 1"
    "nOracleFailures (fst (snd (getCurrencies ex_srv_500 (Oracle_init, ex_world)))) = 1"
    by simp_all
  ultimately show ?thesis
    using active nf zero dis price by simp
qed

section \<open>Calls that do not return\<close>

text \<open>
  Claim C3 says that \<open>load\<close> always resolves. On an active oracle whose server answers
  every request for the currency list with status 200 and the body \<open>[null]\<close>, \<open>load\<close>
  never returns: each round \<open>getCurrencies\<close> sets the failure counter to 0 before the
  loop over the list throws on the \<open>null\<close> element, so the counter is 1 after every
  round, the retry limit is never reached, the oracle is never disabled and the loaded
  flag is never set.
\<close>

theorem load_never_returns_on_null_list:
  "load ex_srv_null_list (Oracle_init, ex_world) = None"
proof (cases "load_loop ex_srv_null_list (Oracle_init, ex_world)")
  case None
  then show ?thesis by (simp add: load_def)
next
  case (Some y)
  from load_loop_null_list [OF this] show ?thesis
    by (simp add: Oracle_init_def)
qed

section \<open>Disablement\<close>

text \<open>
  Claim C4. The first disablement of an active oracle appends, in the order usd, eur, gbp,
  btc, a record with value 0 for each fallback code that the cache does not hold yet;
  every entry already cached keeps its value, no other key appears, the loaded and the
  disabled flag are set, the failure counter and the rest of the environment are left
  alone, and exactly one diagnostic is logged. Disabling again changes nothing: neither
  the cache nor the log.
\<close>

theorem disableOracle_first_then_noop:
  assumes "\<not> fOracleDisabled ora"
  shows "\<exists>ora' w'. disableOracle rsn (ora, w) = (ora', w')
     \<and> mapCurrencies ora' =
         mapCurrencies ora @
         map (\<lambda>c. (JStr c, fallback_record c (clock_ms w div 1000)))
           (filter (\<lambda>c. \<not> map_has (mapCurrencies ora) (JStr c)) FALLBACK_CURRENCIES)
     \<and> (\<forall>c \<in> set FALLBACK_CURRENCIES. \<not> map_has (mapCurrencies ora) (JStr c) \<longrightarrow>
           map_get (mapCurrencies ora') (JStr c) = fallback_record c (clock_ms w div 1000)
           \<and> read_prop (map_get (mapCurrencies ora') (JStr c)) ''value'' = Inr (JNum 0))
     \<and> (\<forall>k. map_has (mapCurrencies ora) k \<longrightarrow>
           map_get (mapCurrencies ora') k = map_get (mapCurrencies ora) k)
     \<and> (\<forall>k. map_has (mapCurrencies ora') k =
           (map_has (mapCurrencies ora) k \<or> k \<in> JStr ` set FALLBACK_CURRENCIES))
     \<and> fLoadedCurrencies ora' \<and> fOracleDisabled ora'
     \<and> nOracleFailures ora' = nOracleFailures ora
     \<and> w' = w\<lparr>warnings := warnings w @ [Warn_disabled rsn]\<rparr>
     \<and> (\<forall>rsn2. disableOracle rsn2 (ora', w') = (ora', w'))"
proof -
  let ?now = "clock_ms w div 1000"
  let ?m = "seed_fallback ?now FALLBACK_CURRENCIES (mapCurrencies ora)"
  let ?ora = "ora\<lparr>mapCurrencies := ?m, fLoadedCurrencies := True, fOracleDisabled := True\<rparr>"
  let ?w = "w\<lparr>warnings := warnings w @ [Warn_disabled rsn]\<rparr>"
  have step: "disableOracle rsn (ora, w) = (?ora, ?w)"
    using assms by (rule disableOracle_active)
  have shape: "?m = mapCurrencies ora @
         map (\<lambda>c. (JStr c, fallback_record c ?now))
           (filter (\<lambda>c. \<not> map_has (mapCurrencies ora) (JStr c)) FALLBACK_CURRENCIES)"
    by (rule seed_fallback_append [OF distinct_FALLBACK])
  have added: "\<forall>c \<in> set FALLBACK_CURRENCIES. \<not> map_has (mapCurrencies ora) (JStr c) \<longrightarrow>
           map_get ?m (JStr c) = fallback_record c ?now
           \<and> read_prop (map_get ?m (JStr c)) ''value'' = Inr (JNum 0)"
    by (simp add: seed_fallback_adds) (simp add: fallback_record_def)
  have kept: "\<forall>k. map_has (mapCurrencies ora) k \<longrightarrow> map_get ?m k = map_get (mapCurrencies ora) k"
    by (simp add: seed_fallback_keeps)
  have keys: "\<forall>k. map_has ?m k = (map_has (mapCurrencies ora) k \<or> k \<in> JStr ` set FALLBACK_CURRENCIES)"
    by (simp add: seed_fallback_has)
  have again: "\<forall>rsn2. disableOracle rsn2 (?ora, ?w) = (?ora, ?w)"
    by (simp add: disableOracle_disabled)
  have sel: "mapCurrencies ?ora = ?m" "fLoadedCurrencies ?ora" "fOracleDisabled ?ora"
    "nOracleFailures ?ora = nOracleFailures ora"
    by simp_all
  show ?thesis
  proof (intro exI conjI)
    show "disableOracle rsn (ora, w) = (?ora, ?w)" by (rule step)
    show "mapCurrencies ?ora = mapCurrencies ora @
         map (\<lambda>c. (JStr c, fallback_record c ?now))
           (filter (\<lambda>c. \<not> map_has (mapCurrencies ora) (JStr c)) FALLBACK_CURRENCIES)"
      unfolding sel by (rule shape)
    show "\<forall>c \<in> set FALLBACK_CURRENCIES. \<not> map_has (mapCurrencies ora) (JStr c) \<longrightarrow>
           map_get (mapCurrencies ?ora) (JStr c) = fallback_record c ?now
           \<and> read_prop (map_get (mapCurrencies ?ora) (JStr c)) ''value'' = Inr (JNum 0)"
      unfolding sel by (rule added)
    show "\<forall>k. map_has (mapCurrencies ora) k \<longrightarrow>
           map_get (mapCurrencies ?ora) k = map_get (mapCurrencies ora) k"
      unfolding sel by (rule kept)
    show "\<forall>k. map_has (mapCurrencies ?ora) k =
           (map_has (mapCurrencies ora) k \<or> k \<in> JStr ` set FALLBACK_CURRENCIES)"
      unfolding sel by (rule keys)
    show "fLoadedCurrencies ?ora" "fOracleDisabled ?ora"
      "nOracleFailures ?ora = nOracleFailures ora" by (rule sel)+
    show "?w = w\<lparr>warnings := warnings w @ [Warn_disabled rsn]\<rparr>" by (rule refl)
    show "\<forall>rsn2. disableOracle rsn2 (?ora, ?w) = (?ora, ?w)" by (rule again)
  qed
qed

theorem disableOracle_first_then_noop_witness:
  "\<not> fOracleDisabled ex_holding_usd
   \<and> mapCurrencies (fst (disableOracle (Reason_text ''x'') (ex_holding_usd, ex_world))) =
       [(JStr ''usd'', ex_usd5),
        (JStr ''eur'', fallback_record ''eur'' 1700000000),
        (JStr ''gbp'', fallback_record ''gbp'' 1700000000),
        (JStr ''btc'', fallback_record ''btc'' 1700000000)]
   \<and> warnings (snd (disableOracle (Reason_text ''x'') (ex_holding_usd, ex_world))) =
       [Warn_disabled (Reason_text ''x'')]
   \<and> disableOracle (Reason_text ''y'') (disableOracle (Reason_text ''x'') (ex_holding_usd, ex_world))
       = disableOracle (Reason_text ''x'') (ex_holding_usd, ex_world)"
proof -
  have active: "\<not> fOracleDisabled ex_holding_usd"
    by (simp add: ex_holding_usd_def Oracle_init_def)
  from disableOracle_first_then_noop [OF active, of "Reason_text ''x''" ex_world]
  obtain ora' w' where
    step: "disableOracle (Reason_text ''x'') (ex_holding_usd, ex_world) = (ora', w')" and
    shape: "mapCurrencies ora' =
         mapCurrencies ex_holding_usd @
         map (\<lambda>c. (JStr c, fallback_record c (clock_ms ex_world div 1000)))
           (filter (\<lambda>c. \<not> map_has (mapCurrencies ex_holding_usd) (JStr c)) FALLBACK_CURRENCIES)" and
    log: "w' = ex_world\<lparr>warnings := warnings ex_world @ [Warn_disabled (Reason_text ''x'')]\<rparr>" and
    again: "\<forall>rsn2. disableOracle rsn2 (ora', w') = (ora', w')"
    by blast
  have cache: "mapCurrencies ora' =
       [(JStr ''usd'', ex_usd5),
        (JStr ''eur'', fallback_record ''eur'' 1700000000),
        (JStr ''gbp'', fallback_record ''gbp'' 1700000000),
        (JStr ''btc'', fallback_record ''btc'' 1700000000)]"
    unfolding shape
    by (simp add: ex_holding_usd_def Oracle_init_def FALLBACK_CURRENCIES_def same_key_def ex_world_def)
  from active step cache log again show ?thesis
    by (simp add: ex_world_def)
qed

section \<open>The currency list\<close>

text \<open>
  Claim C5, as the code has it. When an active oracle's \<open>getCurrencies\<close> receives an OK
  response whose body is a non-empty list of Currency records, it sets the failure counter
  to 0, stores every record, in list order, under that record's own \<open>currency\<close> field,
  sets the loaded flag and returns the fetched list itself. Afterwards a record that no
  later record of the list shares its \<open>currency\<close> field with is the cache entry under
  that field, and \<open>getCachedPrice\<close> of that field is the record's value.
\<close>

theorem getCurrencies_ok_list:
  assumes "\<not> fOracleDisabled ora"
    and "srv (requests w) currencies_url = Fetch_response r"
    and "ok r" and "body r = Body_json (JArr rs)" and "rs \<noteq> []"
    and "\<forall>x \<in> set rs. is_Currency x"
  shows "\<exists>ora'. getCurrencies srv (ora, w) =
           (Inr (JArr rs), (ora', w\<lparr>requests := requests w @ [currencies_url]\<rparr>))
     \<and> nOracleFailures ora' = 0 \<and> fLoadedCurrencies ora' \<and> \<not> fOracleDisabled ora'
     \<and> mapCurrencies ora' =
         foldl (\<lambda>m x. map_set (get_own x ''currency'') x m) (mapCurrencies ora) rs
     \<and> (\<forall>pre x post c.
           rs = pre @ x # post \<and> get_own x ''currency'' = JStr c
           \<and> (\<forall>y \<in> set post. get_own y ''currency'' \<noteq> JStr c) \<longrightarrow>
           map_get (mapCurrencies ora') (JStr c) = x
           \<and> getCachedPrice c ora' = get_own x ''value'')"
proof -
  let ?m = "foldl (\<lambda>m x. map_set (get_own x ''currency'') x m) (mapCurrencies ora) rs"
  let ?ora = "ora\<lparr>mapCurrencies := ?m, fLoadedCurrencies := True, nOracleFailures := 0\<rparr>"
  have "upsert_all rs (mapCurrencies ora) = (None, ?m)"
    using assms(6) by (rule upsert_all_records)
  with assms have step: "getCurrencies srv (ora, w) =
      (Inr (JArr rs), (?ora, w\<lparr>requests := requests w @ [currencies_url]\<rparr>))"
    by (intro getCurrencies_success)
  have last: "map_get (mapCurrencies ?ora) (JStr c) = x
              \<and> getCachedPrice c ?ora = get_own x ''value''"
    if "rs = pre @ x # post" and "get_own x ''currency'' = JStr c"
      and "\<forall>y \<in> set post. get_own y ''currency'' \<noteq> JStr c" for pre x post c
  proof -
    have get: "map_get (mapCurrencies ?ora) (JStr c) = x"
      using that by (simp add: foldl_upsert_other map_get_set same_key_def)
    have "is_Currency x" using assms(6) that(1) by simp
    then show ?thesis using get cached_value_of_record by blast
  qed
  show ?thesis
  proof (intro exI conjI)
    show "getCurrencies srv (ora, w) =
      (Inr (JArr rs), (?ora, w\<lparr>requests := requests w @ [currencies_url]\<rparr>))" by (rule step)
    show "nOracleFailures ?ora = 0" by simp
    show "fLoadedCurrencies ?ora" by simp
    show "\<not> fOracleDisabled ?ora" using assms(1) by simp
    show "mapCurrencies ?ora = ?m" by simp
    show "\<forall>pre x post c.
           rs = pre @ x # post \<and> get_own x ''currency'' = JStr c
           \<and> (\<forall>y \<in> set post. get_own y ''currency'' \<noteq> JStr c) \<longrightarrow>
           map_get (mapCurrencies ?ora) (JStr c) = x
           \<and> getCachedPrice c ?ora = get_own x ''value''"
      using last by blast
  qed
qed

theorem getCurrencies_ok_list_witness:
  "\<not> fOracleDisabled Oracle_init
   \<and> ex_srv_list (requests ex_world) currencies_url = Fetch_response ex_ok_list
   \<and> ok ex_ok_list \<and> body ex_ok_list = Body_json (JArr [ex_usd5, ex_eur2])
   \<and> is_Currency ex_usd5 \<and> is_Currency ex_eur2
   \<and> fst (getCurrencies ex_srv_list (Oracle_init, ex_world)) = Inr (JArr [ex_usd5, ex_eur2])
   \<and> fLoadedCurrencies (fst (snd (getCurrencies ex_srv_list (Oracle_init, ex_world))))
   \<and> getCachedPrice ''usd'' (fst (snd (getCurrencies ex_srv_list (Oracle_init, ex_world)))) = JNum 5
   \<and> getCachedPrice ''eur'' (fst (snd (getCurrencies ex_srv_list (Oracle_init, ex_world)))) = JNum 2"
proof -
  have h: "\<not> fOracleDisabled Oracle_init"
    "ex_srv_list (requests ex_world) currencies_url = Fetch_response ex_ok_list"
    "ok ex_ok_list" "body ex_ok_list = Body_json (JArr [ex_usd5, ex_eur2])"
    "[ex_usd5, ex_eur2] \<noteq> []" "\<forall>x \<in> set [ex_usd5, ex_eur2]. is_Currency x"
    by (simp_all add: Oracle_init_def ex_srv_list_def ok_def ex_ok_list_def ex_eur2_def ex_usd5_def)
  from getCurrencies_ok_list [where srv = ex_srv_list and w = ex_world, OF h]
  obtain ora' where
    step: "getCurrencies ex_srv_list (Oracle_init, ex_world) =
           (Inr (JArr [ex_usd5, ex_eur2]),
            (ora', ex_world\<lparr>requests := requests ex_world @ [currencies_url]\<rparr>))" and
    loaded: "fLoadedCurrencies ora'" and
    last: "\<forall>pre x post c.
           [ex_usd5, ex_eur2] = pre @ x # post \<and> get_own x ''currency'' = JStr c
           \<and> (\<forall>y \<in> set post. get_own y ''currency'' \<noteq> JStr c) \<longrightarrow>
           map_get (mapCurrencies ora') (JStr c) = x
           \<and> getCachedPrice c ora' = get_own x ''value''"
    by blast
  have "[ex_usd5, ex_eur2] = [] @ ex_usd5 # [ex_eur2] \<and> get_own ex_usd5 ''currency'' = JStr ''usd''
        \<and> (\<forall>y \<in> set [ex_eur2]. get_own y ''currency'' \<noteq> JStr ''usd'')"
    by (simp add: ex_usd5_def ex_eur2_def)
  with last have usd: "getCachedPrice ''usd'' ora' = get_own ex_usd5 ''value''" by blast
  have "[ex_usd5, ex_eur2] = [ex_usd5] @ ex_eur2 # [] \<and> get_own ex_eur2 ''currency'' = JStr ''eur''
        \<and> (\<forall>y \<in> set []. get_own y ''currency'' \<noteq> JStr ''eur'')"
    by (simp add: ex_eur2_def)
  with last have eur: "getCachedPrice ''eur'' ora' = get_own ex_eur2 ''value''" by blast
  from h step loaded usd eur show ?thesis
    by (simp add: ex_usd5_def ex_eur2_def)
qed

text \<open>
  Claim C5, as the specification words it, fails for a list that names a currency twice:
  the later record replaces the earlier one, whose value is then not what
  \<open>getCachedPrice\<close> returns.
\<close>

theorem getCurrencies_duplicate_overwritten:
  "is_Currency ex_usd1 \<and> is_Currency ex_usd2
   \<and> get_own ex_usd1 ''currency'' = JStr ''usd'' \<and> get_own ex_usd1 ''value'' = JNum 1
   \<and> fst (getCurrencies ex_srv_twice_usd (Oracle_init, ex_world)) = Inr (JArr [ex_usd1, ex_usd2])
   \<and> getCachedPrice ''usd'' (fst (snd (getCurrencies ex_srv_twice_usd (Oracle_init, ex_world))))
       = JNum 2"
  by (simp add: getCurrencies_def getCurrencies_try_def fetch_def Oracle_init_def ex_world_def
      ex_srv_twice_usd_def ex_ok_twice_usd_def ok_def markOracleSuccess_def ex_usd1_def ex_usd2_def
      same_key_def getCachedPrice_def js_or_def)

section \<open>Loading\<close>

text \<open>
  Claim C6. \<open>load\<close> on an oracle that has loaded calls nothing, sleeps not at all and
  emits its two events at once. On one that has not loaded it calls \<open>getCurrencies\<close>; if
  the loaded flag is set afterwards, by a fetched list or by disablement, it stops there
  and emits, otherwise it sleeps 5000 ms and starts over. Every call of \<open>load\<close> that
  returns resolves, leaves the loaded flag set, has appended to the emitted events exactly
  \<open>currency-loaded\<close>, carrying the cache, and then \<open>price-update\<close>, has slept 5000 ms
  \<open>n\<close> times and, unless the oracle had loaded before, has made \<open>n + 1\<close> requests for
  the currency list. An oracle constructed by this source is disabled, so its \<open>load\<close>
  returns at once with both events.
\<close>

theorem load_rounds_and_events:
  "(fLoadedCurrencies ora \<longrightarrow>
      load srv (ora, w) =
        Some (Inr JUndefined, (ora, w\<lparr>emitted := emitted w @ load_events (mapCurrencies ora)\<rparr>)))
   \<and> (\<not> fLoadedCurrencies ora \<and> snd (getCurrencies srv (ora, w)) = (ora1, w1) \<longrightarrow>
        load srv (ora, w) =
          (if fLoadedCurrencies ora1
           then Some (Inr JUndefined,
                      (ora1, w1\<lparr>emitted := emitted w1 @ load_events (mapCurrencies ora1)\<rparr>))
           else load srv (ora1, sleep 5000 w1)))
   \<and> (load srv (ora, w) = Some (r, (ora', w')) \<longrightarrow>
        r = Inr JUndefined \<and> fLoadedCurrencies ora'
        \<and> emitted w' = emitted w @
             [Event ''currency-loaded'' (Some (mapCurrencies ora')), Event ''price-update'' None]
        \<and> (\<exists>n. slept w' = slept w @ replicate n 5000
               \<and> requests w' = requests w @
                    replicate (if fLoadedCurrencies ora then 0 else n + 1) currencies_url))
   \<and> load srv (Oracle_new w) =
        Some (Inr JUndefined,
              (fst (Oracle_new w),
               w\<lparr>emitted := emitted w @
                    [Event ''currency-loaded'' (Some (mapCurrencies (fst (Oracle_new w)))),
                     Event ''price-update'' None]\<rparr>))"
proof (intro conjI impI)
  assume "fLoadedCurrencies ora"
  then show "load srv (ora, w) =
        Some (Inr JUndefined, (ora, w\<lparr>emitted := emitted w @ load_events (mapCurrencies ora)\<rparr>))"
    by (rule load_loaded)
next
  assume "\<not> fLoadedCurrencies ora \<and> snd (getCurrencies srv (ora, w)) = (ora1, w1)"
  then show "load srv (ora, w) =
          (if fLoadedCurrencies ora1
           then Some (Inr JUndefined,
                      (ora1, w1\<lparr>emitted := emitted w1 @ load_events (mapCurrencies ora1)\<rparr>))
           else load srv (ora1, sleep 5000 w1))"
    by (intro load_round) simp_all
next
  assume ret: "load srv (ora, w) = Some (r, (ora', w'))"
  from load_result [OF ret]
  show "r = Inr JUndefined" and "fLoadedCurrencies ora'"
    and "emitted w' = emitted w @
             [Event ''currency-loaded'' (Some (mapCurrencies ora')), Event ''price-update'' None]"
    and "\<exists>n. slept w' = slept w @ replicate n 5000
               \<and> requests w' = requests w @
                    replicate (if fLoadedCurrencies ora then 0 else n + 1) currencies_url"
    by (simp_all add: load_events_def)
next
  have "fLoadedCurrencies (fst (Oracle_new w))" "Oracle_new w = (fst (Oracle_new w), w)"
    by (simp_all add: Oracle_new_eq)
  then show "load srv (Oracle_new w) =
        Some (Inr JUndefined,
              (fst (Oracle_new w),
               w\<lparr>emitted := emitted w @
                    [Event ''currency-loaded'' (Some (mapCurrencies (fst (Oracle_new w)))),
                     Event ''price-update'' None]\<rparr>))"
    using load_loaded [of "fst (Oracle_new w)" srv w]
    by (metis load_events_def)
qed

theorem load_rounds_and_events_witness:
  "\<not> fLoadedCurrencies Oracle_init
   \<and> load ex_srv_500 (Oracle_init, ex_world) = Some (Inr JUndefined, ex_gave_up)
   \<and> load ex_srv_500 (Oracle_init, ex_world) =
       load ex_srv_500
         (Oracle_init\<lparr>nOracleFailures := 1\<rparr>,
          sleep 5000 (ex_world\<lparr>requests := [currencies_url],
                              warnings := [Warn_failed 1 3 (Reason_http 500 ''currencies'')]\<rparr>))
   \<and> fLoadedCurrencies (fst ex_gave_up)
   \<and> emitted (snd ex_gave_up) = emitted ex_world @
        [Event ''currency-loaded'' (Some (mapCurrencies (fst ex_gave_up))), Event ''price-update'' None]
   \<and> slept (snd ex_gave_up) = slept ex_world @ replicate 2 5000
   \<and> requests (snd ex_gave_up) = requests ex_world @ replicate 3 currencies_url
   \<and> load ex_srv_500 ex_gave_up =
        Some (Inr JUndefined,
              (fst ex_gave_up,
               (snd ex_gave_up)\<lparr>emitted := emitted (snd ex_gave_up)
                                    @ load_events (mapCurrencies (fst ex_gave_up))\<rparr>))"
proof -
  let ?o1 = "Oracle_init\<lparr>nOracleFailures := 1\<rparr>"
  let ?w1 = "ex_world\<lparr>requests := [currencies_url],
                      warnings := [Warn_failed 1 3 (Reason_http 500 ''currencies'')]\<rparr>"
  have start: "\<not> fLoadedCurrencies Oracle_init"
    by (simp add: Oracle_init_def)
  have ret: "load ex_srv_500 (Oracle_init, ex_world) = Some (Inr JUndefined, (fst ex_gave_up, snd ex_gave_up))"
    by (simp add: ex_load_500)
  have loaded: "fLoadedCurrencies (fst ex_gave_up)"
    by (simp add: ex_gave_up_def)
  have r1: "snd (getCurrencies ex_srv_500 (Oracle_init, ex_world)) = (?o1, ?w1)"
    by (simp add: getCurrencies_500 Oracle_init_def markOracleFailure_eq ORACLE_RETRY_LIMIT_def
        ex_world_def)
  have unloaded: "\<not> fLoadedCurrencies ?o1"
    by (simp add: Oracle_init_def)
  from load_rounds_and_events
    [where srv = ex_srv_500 and ora = Oracle_init and w = ex_world and r = "Inr JUndefined"
       and ora' = "fst ex_gave_up" and w' = "snd ex_gave_up" and ?ora1.0 = ?o1 and ?w1.0 = ?w1]
  have ev: "emitted (snd ex_gave_up) = emitted ex_world @
        [Event ''currency-loaded'' (Some (mapCurrencies (fst ex_gave_up))), Event ''price-update'' None]"
    and step: "load ex_srv_500 (Oracle_init, ex_world) = load ex_srv_500 (?o1, sleep 5000 ?w1)"
    using ret start r1 unloaded by auto
  from load_rounds_and_events
    [where srv = ex_srv_500 and ora = "fst ex_gave_up" and w = "snd ex_gave_up"] loaded
  have again: "load ex_srv_500 (fst ex_gave_up, snd ex_gave_up) =
        Some (Inr JUndefined,
              (fst ex_gave_up,
               (snd ex_gave_up)\<lparr>emitted := emitted (snd ex_gave_up)
                                    @ load_events (mapCurrencies (fst ex_gave_up))\<rparr>))"
    by blast
  have counts: "slept (snd ex_gave_up) = slept ex_world @ replicate 2 5000"
    "requests (snd ex_gave_up) = requests ex_world @ replicate 3 currencies_url"
    by (simp_all add: ex_gave_up_def ex_world_def currencies_url_def ORACLE_BASE_def numeral_2_eq_2
        numeral_3_eq_3)
  from start ret loaded ev again counts step show ?thesis by simp
qed

section \<open>The case of the keys\<close>

text \<open>
  Claim C7, as the code has it. Nothing normalises the case of a key. \<open>getPrice(c)\<close>,
  answered OK with a JSON body, stores that body under \<open>c\<close> exactly as it was passed, and
  \<open>getCurrencies\<close>, answered OK with a non-empty list of Currency records, stores each
  record under its \<open>currency\<close> field as the server sent it, so that every such field
  is a key afterwards. The
  keys of the cache are all lowercase strings after \<open>getPrice(c)\<close> when they were before
  and \<open>c\<close> is lowercase, after \<open>getCurrencies\<close> when they were before and every
  \<open>currency\<close> field of the answer is a lowercase string, and after a disablement when
  they were before.
\<close>

theorem cache_keys_as_given:
  "(\<not> fOracleDisabled ora \<and> srv (requests w) (price_url c) = Fetch_response r
      \<and> ok r \<and> body r = Body_json j \<longrightarrow>
      mapCurrencies (fst (snd (getPrice srv c (ora, w)))) = map_set (JStr c) j (mapCurrencies ora)
      \<and> map_has (mapCurrencies (fst (snd (getPrice srv c (ora, w))))) (JStr c))
   \<and> (keys_lowercase (mapCurrencies ora) \<and> is_lowercase c \<longrightarrow>
        keys_lowercase (mapCurrencies (fst (snd (getPrice srv c (ora, w))))))
   \<and> (keys_lowercase (mapCurrencies ora)
        \<and> (\<forall>r j. srv (requests w) currencies_url = Fetch_response r \<and> body r = Body_json j \<longrightarrow>
               (\<forall>x \<in> set (elements j). is_lowercase_key (get_own x ''currency''))) \<longrightarrow>
        keys_lowercase (mapCurrencies (fst (snd (getCurrencies srv (ora, w))))))
   \<and> (keys_lowercase (mapCurrencies ora) \<longrightarrow>
        keys_lowercase (mapCurrencies (fst (disableOracle rsn (ora, w)))))
   \<and> (\<not> fOracleDisabled ora \<and> srv (requests w) currencies_url = Fetch_response r2
        \<and> ok r2 \<and> body r2 = Body_json (JArr rs) \<and> rs \<noteq> [] \<and> (\<forall>x \<in> set rs. is_Currency x) \<longrightarrow>
        mapCurrencies (fst (snd (getCurrencies srv (ora, w)))) =
          foldl (\<lambda>m x. map_set (get_own x ''currency'') x m) (mapCurrencies ora) rs
        \<and> (\<forall>x \<in> set rs.
              map_has (mapCurrencies (fst (snd (getCurrencies srv (ora, w)))))
                (get_own x ''currency'')))"
proof (intro conjI impI)
  assume h: "\<not> fOracleDisabled ora \<and> srv (requests w) (price_url c) = Fetch_response r
      \<and> ok r \<and> body r = Body_json j"
  then show stored: "mapCurrencies (fst (snd (getPrice srv c (ora, w))))
      = map_set (JStr c) j (mapCurrencies ora)"
    by (intro getPrice_ok_cache [where r = r]) simp_all
  show "map_has (mapCurrencies (fst (snd (getPrice srv c (ora, w))))) (JStr c)"
    unfolding stored by (simp add: map_has_set same_key_def)
next
  assume "keys_lowercase (mapCurrencies ora) \<and> is_lowercase c"
  then show "keys_lowercase (mapCurrencies (fst (snd (getPrice srv c (ora, w)))))"
    by (intro keys_lowercase_getPrice) simp_all
next
  assume "keys_lowercase (mapCurrencies ora)
        \<and> (\<forall>r j. srv (requests w) currencies_url = Fetch_response r \<and> body r = Body_json j \<longrightarrow>
               (\<forall>x \<in> set (elements j). is_lowercase_key (get_own x ''currency'')))"
  then show "keys_lowercase (mapCurrencies (fst (snd (getCurrencies srv (ora, w)))))"
    by (intro keys_lowercase_getCurrencies) blast+
next
  assume "keys_lowercase (mapCurrencies ora)"
  then show "keys_lowercase (mapCurrencies (fst (disableOracle rsn (ora, w))))"
    by (rule keys_lowercase_disable)
next
  assume g: "\<not> fOracleDisabled ora \<and> srv (requests w) currencies_url = Fetch_response r2
        \<and> ok r2 \<and> body r2 = Body_json (JArr rs) \<and> rs \<noteq> [] \<and> (\<forall>x \<in> set rs. is_Currency x)"
  then show sent: "mapCurrencies (fst (snd (getCurrencies srv (ora, w)))) =
          foldl (\<lambda>m x. map_set (get_own x ''currency'') x m) (mapCurrencies ora) rs"
    by (intro getCurrencies_ok_cache [where r = r2]) simp_all
  from g have "\<forall>x \<in> set rs. \<not> is_ref (get_own x ''currency'')"
    by (simp add: is_Currency_key)
  then show "\<forall>x \<in> set rs.
              map_has (mapCurrencies (fst (snd (getCurrencies srv (ora, w)))))
                (get_own x ''currency'')"
    unfolding sent by (simp add: foldl_upsert_has_key)
qed

theorem cache_keys_as_given_witness:
  "\<not> fOracleDisabled Oracle_init
   \<and> ex_srv_eur2 (requests ex_world) (price_url ''usd'') = Fetch_response ex_ok_eur2
   \<and> ok ex_ok_eur2 \<and> body ex_ok_eur2 = Body_json ex_eur2
   \<and> keys_lowercase (mapCurrencies Oracle_init) \<and> is_lowercase ''usd''
   \<and> mapCurrencies (fst (snd (getPrice ex_srv_eur2 ''usd'' (Oracle_init, ex_world))))
       = [(JStr ''usd'', ex_eur2)]
   \<and> keys_lowercase (mapCurrencies (fst (snd (getPrice ex_srv_eur2 ''usd'' (Oracle_init, ex_world)))))
   \<and> keys_lowercase (mapCurrencies (fst (snd (getCurrencies ex_srv_list (Oracle_init, ex_world)))))
   \<and> keys_lowercase (mapCurrencies (fst (disableOracle (Reason_text ''x'') (Oracle_init, ex_world))))
   \<and> ex_srv_EUR3 (requests ex_world) currencies_url = Fetch_response ex_ok_EUR3
   \<and> ok ex_ok_EUR3 \<and> body ex_ok_EUR3 = Body_json (JArr [ex_EUR3]) \<and> is_Currency ex_EUR3
   \<and> mapCurrencies (fst (snd (getCurrencies ex_srv_EUR3 (Oracle_init, ex_world))))
       = [(JStr ''EUR'', ex_EUR3)]
   \<and> map_has (mapCurrencies (fst (snd (getCurrencies ex_srv_EUR3 (Oracle_init, ex_world)))))
       (JStr ''EUR'')"
proof -
  have h: "\<not> fOracleDisabled Oracle_init"
    "ex_srv_eur2 (requests ex_world) (price_url ''usd'') = Fetch_response ex_ok_eur2"
    "ok ex_ok_eur2" "body ex_ok_eur2 = Body_json ex_eur2"
    "keys_lowercase (mapCurrencies Oracle_init)" "is_lowercase ''usd''"
    by (simp_all add: Oracle_init_def ex_srv_eur2_def ok_def ex_ok_eur2_def keys_lowercase_def
        is_lowercase_def)
  have l: "\<forall>r j. ex_srv_list (requests ex_world) currencies_url = Fetch_response r
             \<and> body r = Body_json j \<longrightarrow>
             (\<forall>x \<in> set (elements j). is_lowercase_key (get_own x ''currency''))"
    by (auto simp: ex_srv_list_def ex_ok_list_def ex_usd5_def ex_eur2_def is_lowercase_def)
  have g: "ex_srv_EUR3 (requests ex_world) currencies_url = Fetch_response ex_ok_EUR3"
    "ok ex_ok_EUR3" "body ex_ok_EUR3 = Body_json (JArr [ex_EUR3])" "[ex_EUR3] \<noteq> []"
    "\<forall>x \<in> set [ex_EUR3]. is_Currency x" "get_own ex_EUR3 ''currency'' = JStr ''EUR''"
    by (simp_all add: ex_srv_EUR3_def ok_def ex_ok_EUR3_def ex_EUR3_def)
  note a = cache_keys_as_given
    [where ora = Oracle_init and srv = ex_srv_eur2 and w = ex_world and c = "''usd''"
       and r = ex_ok_eur2 and j = ex_eur2 and rsn = "Reason_text ''x''"
       and ?r2.0 = ex_ok_EUR3 and rs = "[ex_EUR3]"]
  note b = cache_keys_as_given
    [where ora = Oracle_init and srv = ex_srv_list and w = ex_world and c = "''usd''"
       and r = ex_ok_eur2 and j = ex_eur2 and rsn = "Reason_text ''x''"
       and ?r2.0 = ex_ok_EUR3 and rs = "[ex_EUR3]"]
  note c = cache_keys_as_given
    [where ora = Oracle_init and srv = ex_srv_EUR3 and w = ex_world and c = "''usd''"
       and r = ex_ok_eur2 and j = ex_eur2 and rsn = "Reason_text ''x''"
       and ?r2.0 = ex_ok_EUR3 and rs = "[ex_EUR3]"]
  have a1: "mapCurrencies (fst (snd (getPrice ex_srv_eur2 ''usd'' (Oracle_init, ex_world))))
       = map_set (JStr ''usd'') ex_eur2 (mapCurrencies Oracle_init)"
    using a [THEN conjunct1] h by simp
  have a2: "keys_lowercase (mapCurrencies (fst (snd (getPrice ex_srv_eur2 ''usd'' (Oracle_init, ex_world)))))"
    using a [THEN conjunct2, THEN conjunct1] h by simp
  have a4: "keys_lowercase (mapCurrencies (fst (disableOracle (Reason_text ''x'') (Oracle_init, ex_world))))"
    using a [THEN conjunct2, THEN conjunct2, THEN conjunct2, THEN conjunct1] h by simp
  have b3: "keys_lowercase (mapCurrencies (fst (snd (getCurrencies ex_srv_list (Oracle_init, ex_world)))))"
    using b [THEN conjunct2, THEN conjunct2, THEN conjunct1] h(5) l by simp
  have prem: "\<not> fOracleDisabled Oracle_init
        \<and> ex_srv_EUR3 (requests ex_world) currencies_url = Fetch_response ex_ok_EUR3
        \<and> ok ex_ok_EUR3 \<and> body ex_ok_EUR3 = Body_json (JArr [ex_EUR3]) \<and> [ex_EUR3] \<noteq> []
        \<and> (\<forall>x \<in> set [ex_EUR3]. is_Currency x)"
    using h(1) g(1-5) by blast
  have c5: "mapCurrencies (fst (snd (getCurrencies ex_srv_EUR3 (Oracle_init, ex_world)))) =
          foldl (\<lambda>m x. map_set (get_own x ''currency'') x m) (mapCurrencies Oracle_init) [ex_EUR3]
        \<and> (\<forall>x \<in> set [ex_EUR3].
              map_has (mapCurrencies (fst (snd (getCurrencies ex_srv_EUR3 (Oracle_init, ex_world)))))
                (get_own x ''currency''))"
    by (rule c [THEN conjunct2, THEN conjunct2, THEN conjunct2, THEN conjunct2, THEN mp, OF prem])
  from c5 have "mapCurrencies (fst (snd (getCurrencies ex_srv_EUR3 (Oracle_init, ex_world)))) =
          foldl (\<lambda>m x. map_set (get_own x ''currency'') x m) (mapCurrencies Oracle_init) [ex_EUR3]"
    by (rule conjunct1)
  with g(6) have c6a:
    "mapCurrencies (fst (snd (getCurrencies ex_srv_EUR3 (Oracle_init, ex_world))))
       = [(JStr ''EUR'', ex_EUR3)]"
    by (simp add: Oracle_init_def)
  from c5 have "\<forall>x \<in> set [ex_EUR3].
              map_has (mapCurrencies (fst (snd (getCurrencies ex_srv_EUR3 (Oracle_init, ex_world)))))
                (get_own x ''currency'')"
    by (rule conjunct2)
  then have "map_has (mapCurrencies (fst (snd (getCurrencies ex_srv_EUR3 (Oracle_init, ex_world)))))
                (get_own ex_EUR3 ''currency'')"
    by simp
  then have c6b:
    "map_has (mapCurrencies (fst (snd (getCurrencies ex_srv_EUR3 (Oracle_init, ex_world)))))
       (JStr ''EUR'')"
    unfolding g(6) .
  note c6 = c6a c6b
  have cur: "is_Currency ex_EUR3" using g(5) by simp
  from a1 a2 a4 b3 c6 h g(1-3) cur show ?thesis
    by (simp add: Oracle_init_def)
qed

text \<open>
  Claim C7, as the specification words it, fails: asked for \<open>USD\<close>, \<open>getPrice\<close> stores
  the answer under the key \<open>USD\<close>, in a cache whose keys were all lowercase before.
\<close>

theorem getPrice_key_not_lowercased:
  "keys_lowercase (mapCurrencies Oracle_init)
   \<and> map_has (mapCurrencies (fst (snd (getPrice ex_srv_eur2 ''USD'' (Oracle_init, ex_world)))))
       (JStr ''USD'')
   \<and> \<not> map_has (mapCurrencies (fst (snd (getPrice ex_srv_eur2 ''USD'' (Oracle_init, ex_world)))))
       (JStr ''usd'')
   \<and> \<not> keys_lowercase
         (mapCurrencies (fst (snd (getPrice ex_srv_eur2 ''USD'' (Oracle_init, ex_world)))))"
  by (simp add: getPrice_def getPrice_try_def fetch_def Oracle_init_def ex_world_def
      ex_srv_eur2_def ex_ok_eur2_def ok_def markOracleSuccess_def ex_eur2_def same_key_def
      keys_lowercase_def is_lowercase_def)

section \<open>AsyncInterval\<close>

text \<open>
  Claim C8. Whatever the calls of \<open>cb\<close> do, the loop goes on: after \<open>n\<close> calls that
  have settled, by fulfilment, rejection or throw, each followed by the end of the sleep,
  \<open>cb\<close> has been called \<open>n + 1\<close> times (three times after two failures), every error
  is on the console in order, and the loop is active and in its next call. A call that
  settles, however it does, leaves the flag as it is, logs the error if there is one and
  puts the loop to sleep for \<open>timeOut\<close>. While nobody calls \<open>clearInterval\<close> the flag
  stays true and the loop is never left. After \<open>clearInterval(0)\<close>, whenever it is
  called and whatever occurs later, \<open>cb\<close> is called at most once more. \<open>clearInterval(d)\<close>
  itself leaves the flag as it is and sets a timer due \<open>d\<close> ms later, or after the
  runtime's least delay where that is longer; the flag only becomes false when such a
  timer runs, at its due time or later.
\<close>

theorem AsyncInterval_outlives_failures:
  "invocations (occur_all (rounds ocs) (AsyncInterval_new ms t least)) = length ocs + 1
   \<and> console (occur_all (rounds ocs) (AsyncInterval_new ms t least)) = concat (map caught ocs)
   \<and> active (occur_all (rounds ocs) (AsyncInterval_new ms t least))
   \<and> phase (occur_all (rounds ocs) (AsyncInterval_new ms t least)) = Calling
   \<and> (phase s = Calling \<longrightarrow>
        phase (occur (Settles oc) s) = Sleeping
        \<and> active (occur (Settles oc) s) = active s
        \<and> console (occur (Settles oc) s) = console s @ caught oc
        \<and> (time_ms s + max (timeOut s) (min_delay s), Wake) \<in> set (timers (occur (Settles oc) s)))
   \<and> ((\<forall>e \<in> set os. \<not> is_clear e) \<longrightarrow>
        active (occur_all os (AsyncInterval_new ms t least))
        \<and> phase (occur_all os (AsyncInterval_new ms t least)) \<noteq> Stopped)
   \<and> invocations (occur_all os' (clearInterval 0 (occur_all os (AsyncInterval_new ms t least))))
        \<le> invocations (occur_all os (AsyncInterval_new ms t least)) + 1
   \<and> active (clearInterval d s) = active s
   \<and> (time_ms s + max d (min_delay s), Deactivate) \<in> set (timers (clearInterval d s))
   \<and> (active s \<and> \<not> active (occur e s) \<longrightarrow>
        e = Timer_fires
        \<and> (\<exists>due rest. timers s = (due, Deactivate) # rest \<and> due \<le> time_ms (occur e s)))"
proof -
  let ?new = "AsyncInterval_new ms t least"
  have new: "active ?new" "phase ?new = Calling" "timers ?new = []" "invocations ?new = 1"
    "console ?new = []"
    by (simp_all add: AsyncInterval_new_def loop_test_def)
  have r: "occur_all (rounds ocs) ?new =
     ?new\<lparr>invocations := invocations ?new + length ocs,
           console := console ?new @ concat (map caught ocs),
           time_ms := time_ms ?new + length ocs * max (timeOut ?new) (min_delay ?new)\<rparr>"
    using new(1-3) by (rule rounds_state)
  have rounds: "invocations (occur_all (rounds ocs) ?new) = length ocs + 1"
    "console (occur_all (rounds ocs) ?new) = concat (map caught ocs)"
    "active (occur_all (rounds ocs) ?new)"
    "phase (occur_all (rounds ocs) ?new) = Calling"
    unfolding r using new by simp_all
  have settle: "phase (occur (Settles oc) s) = Sleeping
        \<and> active (occur (Settles oc) s) = active s
        \<and> console (occur (Settles oc) s) = console s @ caught oc
        \<and> (time_ms s + max (timeOut s) (min_delay s), Wake) \<in> set (timers (occur (Settles oc) s))"
    if "phase s = Calling"
    using that
    by (cases oc)
       (simp_all add: after_call_def await_sleep_def setTimeout_def caught_def Let_def
         set_insert_timer)
  have going: "active (occur_all os ?new) \<and> phase (occur_all os ?new) \<noteq> Stopped"
    if "\<forall>e \<in> set os. \<not> is_clear e"
    using that new by (intro uncleared_occur_all) simp_all
  have more: "invocations (occur_all os' (clearInterval 0 (occur_all os ?new)))
        \<le> invocations (occur_all os ?new) + 1"
    by (intro at_most_one_more well_formed_occur_all well_formed_new)
  have later: "active (clearInterval d s) = active s"
    "(time_ms s + max d (min_delay s), Deactivate) \<in> set (timers (clearInterval d s))"
    by (simp_all add: clearInterval_def setTimeout_def set_insert_timer)
  have cleared: "e = Timer_fires
        \<and> (\<exists>due rest. timers s = (due, Deactivate) # rest \<and> due \<le> time_ms (occur e s))"
    if "active s \<and> \<not> active (occur e s)"
    using that by (intro flag_cleared_by_timer) simp_all
  from rounds settle going more later cleared show ?thesis
    by (intro conjI impI) blast+
qed

theorem AsyncInterval_outlives_failures_witness:
  "invocations (occur_all (rounds [Threw JNull, Rejected (JStr ''offline'')]) ex_interval) = 3
   \<and> console (occur_all (rounds [Threw JNull, Rejected (JStr ''offline'')]) ex_interval)
       = [JNull, JStr ''offline'']
   \<and> phase ex_interval = Calling
   \<and> phase (occur (Settles (Threw JNull)) ex_interval) = Sleeping
   \<and> active (occur_all [Settles (Threw JNull), Elapses 100] ex_interval)
   \<and> invocations (occur_all [Settles (Threw JNull), Elapses 100] ex_interval) = 1
   \<and> invocations
        (occur_all [Timer_fires, Settles (Threw JNull), Timer_fires, Timer_fires, Timer_fires]
          (clearInterval 0 (occur_all [Settles (Threw JNull), Elapses 100] ex_interval))) = 2
   \<and> phase
        (occur_all [Timer_fires, Settles (Threw JNull), Timer_fires, Timer_fires, Timer_fires]
          (clearInterval 0 (occur_all [Settles (Threw JNull), Elapses 100] ex_interval))) = Stopped
   \<and> active (clearInterval 0 ex_interval)
   \<and> active (occur Timer_fires (clearInterval 0 ex_interval)) = False
   \<and> timers (clearInterval 0 ex_interval) = [(1, Deactivate)]
   \<and> time_ms (clearInterval 0 ex_interval) = 0
   \<and> 1 \<le> time_ms (occur Timer_fires (clearInterval 0 ex_interval))"
proof -
  note t = AsyncInterval_outlives_failures
    [where ocs = "[Threw JNull, Rejected (JStr ''offline'')]" and ms = 100 and t = 0
       and least = 1
       and s = ex_interval and oc = "Threw JNull"
       and os = "[Settles (Threw JNull), Elapses 100]" and d = 0
       and os' = "[Timer_fires, Settles (Threw JNull), Timer_fires, Timer_fires, Timer_fires]"
       and e = Timer_fires, folded ex_interval_def]
  note u = AsyncInterval_outlives_failures
    [where ocs = "[]" and ms = 100 and t = 0 and least = 1
       and s = "clearInterval 0 ex_interval" and oc = "Threw JNull"
       and os = "[]" and d = 0 and os' = "[]" and e = Timer_fires]
  have calling: "phase ex_interval = Calling" "active ex_interval"
    by (simp_all add: ex_interval_def AsyncInterval_new_def loop_test_def)
  have unclear: "\<forall>e \<in> set [Settles (Threw JNull), Elapses 100]. \<not> is_clear e"
    by simp
  have queue: "timers (clearInterval 0 ex_interval) = [(1, Deactivate)]"
    "time_ms (clearInterval 0 ex_interval) = 0"
    by (simp_all add: ex_interval_def AsyncInterval_new_def loop_test_def clearInterval_def
        setTimeout_def)
  have falls: "active (occur Timer_fires (clearInterval 0 ex_interval)) = False"
    by (simp add: ex_interval_def AsyncInterval_new_def loop_test_def clearInterval_def
        setTimeout_def timer_fires_def Let_def)
  from t have "invocations (occur_all (rounds [Threw JNull, Rejected (JStr ''offline'')]) ex_interval)
        = length [Threw JNull, Rejected (JStr ''offline'')] + 1"
    and "console (occur_all (rounds [Threw JNull, Rejected (JStr ''offline'')]) ex_interval)
        = concat (map caught [Threw JNull, Rejected (JStr ''offline'')])"
    by blast+
  moreover from t calling have "phase (occur (Settles (Threw JNull)) ex_interval) = Sleeping"
    by blast
  moreover from t unclear have "active (occur_all [Settles (Threw JNull), Elapses 100] ex_interval)"
    by blast
  moreover from t calling have later: "active (clearInterval 0 ex_interval)"
    by blast
  moreover from u later falls obtain due rest where
    "timers (clearInterval 0 ex_interval) = (due, Deactivate) # rest"
    "due \<le> time_ms (occur Timer_fires (clearInterval 0 ex_interval))"
    by blast
  with queue have "1 \<le> time_ms (occur Timer_fires (clearInterval 0 ex_interval))"
    by simp
  moreover have "invocations (occur_all [Settles (Threw JNull), Elapses 100] ex_interval) = 1"
    "invocations
        (occur_all [Timer_fires, Settles (Threw JNull), Timer_fires, Timer_fires, Timer_fires]
          (clearInterval 0 (occur_all [Settles (Threw JNull), Elapses 100] ex_interval))) = 2"
    "phase
        (occur_all [Timer_fires, Settles (Threw JNull), Timer_fires, Timer_fires, Timer_fires]
          (clearInterval 0 (occur_all [Settles (Threw JNull), Elapses 100] ex_interval))) = Stopped"
    by (simp_all add: ex_interval_def AsyncInterval_new_def loop_test_def occur_all_def
        after_call_def await_sleep_def setTimeout_def clearInterval_def timer_fires_def Let_def)
  ultimately show ?thesis
    using calling queue falls by (simp add: caught_def)
qed

text \<open>
  Claim C9, as the code has it. When an active oracle's \<open>getPrice(c)\<close> receives an OK
  response whose body has a \<open>value\<close> that can be read, \<open>getPrice(c)\<close> returns that
  value, the cache afterwards maps the requested key \<open>c\<close> to the fetched body, \<open>c\<close> is
  the only key that may be new, and every other entry is untouched; so no entry appears
  under the record's own \<open>currency\<close> field when that differs from \<open>c\<close>.
  \<open>getCachedPrice(c)\<close> then returns the value \<open>getPrice(c)\<close> returned when that value
  is a number or any other truthy value, and 0 when it is one of the falsy values that
  are not numbers (\<open>null\<close>, \<open>false\<close>, the empty string, or no value at all).
\<close>

theorem getPrice_then_getCachedPrice:
  assumes "\<not> fOracleDisabled ora"
    and "srv (requests w) (price_url c) = Fetch_response r"
    and "ok r" and "body r = Body_json j" and "read_prop j ''value'' = Inr v"
  shows "fst (getPrice srv c (ora, w)) = Inr v
     \<and> map_get (mapCurrencies (fst (snd (getPrice srv c (ora, w))))) (JStr c) = j
     \<and> getCachedPrice c (fst (snd (getPrice srv c (ora, w)))) = (if truthy v then v else JNum 0)
     \<and> (is_number v \<or> truthy v \<longrightarrow>
           getCachedPrice c (fst (snd (getPrice srv c (ora, w)))) = v)
     \<and> (\<forall>k. map_has (mapCurrencies (fst (snd (getPrice srv c (ora, w))))) k
             = (map_has (mapCurrencies ora) k \<or> k = JStr c))
     \<and> (\<forall>k. k \<noteq> JStr c \<longrightarrow>
           map_get (mapCurrencies (fst (snd (getPrice srv c (ora, w))))) k
             = map_get (mapCurrencies ora) k)"
proof -
  have step: "getPrice srv c (ora, w) =
           (Inr v,
            (ora\<lparr>mapCurrencies := map_set (JStr c) j (mapCurrencies ora), nOracleFailures := 0\<rparr>,
             w\<lparr>requests := requests w @ [price_url c]\<rparr>))"
    using assms by (rule getPrice_success)
  let ?ora = "ora\<lparr>mapCurrencies := map_set (JStr c) j (mapCurrencies ora), nOracleFailures := 0\<rparr>"
  have "opt_prop j ''value'' = v"
    using assms(5) by (cases j) simp_all
  then have cached: "getCachedPrice c ?ora = (if truthy v then v else JNum 0)"
    by (simp add: getCachedPrice_def js_or_def map_get_set same_key_def)
  have same: "getCachedPrice c ?ora = v" if "is_number v \<or> truthy v"
  proof (cases "truthy v")
    case True
    with cached show ?thesis by simp
  next
    case False
    with that obtain x where "v = JNum x" by (cases v) simp_all
    with False cached show ?thesis by simp
  qed
  have stored: "map_get (mapCurrencies ?ora) (JStr c) = j"
    by (simp add: map_get_set same_key_def)
  have keys: "\<forall>k. map_has (mapCurrencies ?ora) k = (map_has (mapCurrencies ora) k \<or> k = JStr c)"
    by (auto simp: map_has_set same_key_def)
  have others: "\<forall>k. k \<noteq> JStr c \<longrightarrow> map_get (mapCurrencies ?ora) k = map_get (mapCurrencies ora) k"
    by (simp add: map_get_set same_key_def)
  have sel: "fst (getPrice srv c (ora, w)) = Inr v" "fst (snd (getPrice srv c (ora, w))) = ?ora"
    unfolding step by simp_all
  show ?thesis
    unfolding sel
  proof (intro conjI impI)
    show "Inr v = (Inr v :: jsval + jsval)" by (rule refl)
    show "map_get (mapCurrencies ?ora) (JStr c) = j" by (rule stored)
    show "getCachedPrice c ?ora = (if truthy v then v else JNum 0)" by (rule cached)
    show "getCachedPrice c ?ora = v" if "is_number v \<or> truthy v" using that by (rule same)
    show "\<forall>k. map_has (mapCurrencies ?ora) k = (map_has (mapCurrencies ora) k \<or> k = JStr c)"
      by (rule keys)
    show "\<forall>k. k \<noteq> JStr c \<longrightarrow> map_get (mapCurrencies ?ora) k = map_get (mapCurrencies ora) k"
      by (rule others)
  qed
qed

theorem getPrice_then_getCachedPrice_witness:
  "\<not> fOracleDisabled Oracle_init
   \<and> ex_srv_eur2 (requests ex_world) (price_url ''USD'') = Fetch_response ex_ok_eur2
   \<and> ok ex_ok_eur2 \<and> body ex_ok_eur2 = Body_json ex_eur2
   \<and> read_prop ex_eur2 ''value'' = Inr (JNum 2)
   \<and> is_number (JNum 2)
   \<and> fst (getPrice ex_srv_eur2 ''USD'' (Oracle_init, ex_world)) = Inr (JNum 2)
   \<and> getCachedPrice ''USD'' (fst (snd (getPrice ex_srv_eur2 ''USD'' (Oracle_init, ex_world))))
       = JNum 2
   \<and> map_has (mapCurrencies (fst (snd (getPrice ex_srv_eur2 ''USD'' (Oracle_init, ex_world)))))
       (JStr ''eur'') = False
   \<and> map_get (mapCurrencies (fst (snd (getPrice ex_srv_eur2 ''USD'' (Oracle_init, ex_world)))))
       (JStr ''eur'') = map_get (mapCurrencies Oracle_init) (JStr ''eur'')"
proof -
  have h: "\<not> fOracleDisabled Oracle_init"
    "ex_srv_eur2 (requests ex_world) (price_url ''USD'') = Fetch_response ex_ok_eur2"
    "ok ex_ok_eur2" "body ex_ok_eur2 = Body_json ex_eur2"
    "read_prop ex_eur2 ''value'' = Inr (JNum 2)"
    by (simp_all add: Oracle_init_def ex_srv_eur2_def ok_def ex_ok_eur2_def ex_eur2_def)
  from getPrice_then_getCachedPrice
    [where srv = ex_srv_eur2 and w = ex_world and c = "''USD''", OF h] h
  show ?thesis
    by (simp add: Oracle_init_def)
qed

text \<open>
  Claim C9, as the specification words it, fails for a record whose \<open>value\<close> is
  \<open>null\<close>: \<open>getPrice\<close> succeeds and returns \<open>null\<close>, the record is cached under the
  requested key, and \<open>getCachedPrice\<close> of that key returns 0.
\<close>

theorem getPrice_null_value_cached_as_zero:
  "read_prop ex_usd_null ''value'' = Inr JNull
   \<and> fst (getPrice ex_srv_usd_null ''usd'' (Oracle_init, ex_world)) = Inr JNull
   \<and> nOracleFailures (fst (snd (getPrice ex_srv_usd_null ''usd'' (Oracle_init, ex_world)))) = 0
   \<and> map_get (mapCurrencies (fst (snd (getPrice ex_srv_usd_null ''usd'' (Oracle_init, ex_world)))))
       (JStr ''usd'') = ex_usd_null
   \<and> getCachedPrice ''usd'' (fst (snd (getPrice ex_srv_usd_null ''usd'' (Oracle_init, ex_world))))
       = JNum 0
   \<and> JNum 0 \<noteq> JNull"
  by (simp add: getPrice_def getPrice_try_def fetch_def Oracle_init_def ex_world_def
      ex_srv_usd_null_def ok_def markOracleSuccess_def ex_usd_null_def same_key_def
      getCachedPrice_def js_or_def)

section \<open>The oracle of this source\<close>

text \<open>
  Claim C10. \<open>ORACLE_ENABLED\<close> is false, so the constructor, and with it the singleton
  \<open>cOracle\<close>, yields an instance that is disabled and loaded, with no failure counted and
  a cache of exactly the four records usd, eur, gbp, btc, each with value 0, and touches
  nothing else. On that instance \<open>getCachedPrice\<close> and \<open>getPrice\<close> return 0 for every
  code, \<open>getCurrencies\<close> returns the four records, \<open>load\<close> returns at once having
  emitted its two events, and whatever sequence of calls a client makes, the instance
  stays as constructed and no request is made nor any sleep taken.
\<close>

theorem cOracle_is_disabled_from_the_start:
  "ORACLE_ENABLED = False
   \<and> cOracle w = Oracle_new w
   \<and> Oracle_new w =
       (\<lparr>mapCurrencies =
           [(JStr ''usd'', fallback_record ''usd'' (clock_ms w div 1000)),
            (JStr ''eur'', fallback_record ''eur'' (clock_ms w div 1000)),
            (JStr ''gbp'', fallback_record ''gbp'' (clock_ms w div 1000)),
            (JStr ''btc'', fallback_record ''btc'' (clock_ms w div 1000))],
         fLoadedCurrencies = True, nOracleFailures = 0, fOracleDisabled = True\<rparr>, w)
   \<and> map (\<lambda>kv. (fst kv, get_own (snd kv) ''value'')) (mapCurrencies (fst (Oracle_new w))) =
       [(JStr ''usd'', JNum 0), (JStr ''eur'', JNum 0), (JStr ''gbp'', JNum 0), (JStr ''btc'', JNum 0)]
   \<and> getCachedPrice c (fst (Oracle_new w)) = JNum 0
   \<and> getPrice srv c (Oracle_new w) = (Inr (JNum 0), Oracle_new w)
   \<and> getCurrencies srv (Oracle_new w) =
       (Inr (JArr [fallback_record ''usd'' (clock_ms w div 1000),
                   fallback_record ''eur'' (clock_ms w div 1000),
                   fallback_record ''gbp'' (clock_ms w div 1000),
                   fallback_record ''btc'' (clock_ms w div 1000)]),
        Oracle_new w)
   \<and> load srv (Oracle_new w) =
       Some (Inr JUndefined,
             (fst (Oracle_new w),
              w\<lparr>emitted := emitted w @
                   [Event ''currency-loaded'' (Some (mapCurrencies (fst (Oracle_new w)))),
                    Event ''price-update'' None]\<rparr>))
   \<and> (\<exists>w'. run srv calls (Oracle_new w) =
              Some (map (cached_answer (fst (Oracle_new w))) calls, (fst (Oracle_new w), w'))
           \<and> requests w' = requests w \<and> slept w' = slept w \<and> warnings w' = warnings w)"
proof -
  let ?now = "clock_ms w div 1000"
  let ?ora = "\<lparr>mapCurrencies =
           [(JStr ''usd'', fallback_record ''usd'' ?now),
            (JStr ''eur'', fallback_record ''eur'' ?now),
            (JStr ''gbp'', fallback_record ''gbp'' ?now),
            (JStr ''btc'', fallback_record ''btc'' ?now)],
         fLoadedCurrencies = True, nOracleFailures = 0, fOracleDisabled = True\<rparr>"
  have new: "Oracle_new w = (?ora, w)"
    by (rule Oracle_new_eq)
  have flags: "fOracleDisabled ?ora" "fLoadedCurrencies ?ora"
    by simp_all
  have price: "getCachedPrice c ?ora = JNum 0"
    by (rule getCachedPrice_fallback_only)
  have gp: "getPrice srv c (?ora, w) = (Inr (JNum 0), (?ora, w))"
    using getPrice_disabled [OF flags(1), of srv c w] price by simp
  have gc: "getCurrencies srv (?ora, w) =
       (Inr (JArr [fallback_record ''usd'' ?now, fallback_record ''eur'' ?now,
                   fallback_record ''gbp'' ?now, fallback_record ''btc'' ?now]), (?ora, w))"
    using getCurrencies_disabled [OF flags(1), of srv w]
    by (simp add: getCachedCurrencies_def map_values_def)
  have ld: "load srv (?ora, w) =
       Some (Inr JUndefined,
             (?ora, w\<lparr>emitted := emitted w @
                   [Event ''currency-loaded'' (Some (mapCurrencies ?ora)),
                    Event ''price-update'' None]\<rparr>))"
    using load_loaded [OF flags(2), of srv w] by (simp add: load_events_def)
  have rn: "\<exists>w'. run srv calls (?ora, w) = Some (map (cached_answer ?ora) calls, (?ora, w'))
           \<and> requests w' = requests w \<and> slept w' = slept w \<and> warnings w' = warnings w"
    using run_disabled [OF flags, of srv calls w] by simp
  have vals: "map (\<lambda>kv. (fst kv, get_own (snd kv) ''value'')) (mapCurrencies ?ora) =
       [(JStr ''usd'', JNum 0), (JStr ''eur'', JNum 0), (JStr ''gbp'', JNum 0), (JStr ''btc'', JNum 0)]"
    by (simp add: fallback_record_def)
  show ?thesis
    unfolding new fst_conv
    using price gp gc ld rn vals
    by (intro conjI) (simp_all add: ORACLE_ENABLED_def cOracle_def new)
qed

theorem cOracle_is_disabled_from_the_start_witness:
  "fOracleDisabled (fst (cOracle ex_world)) \<and> fLoadedCurrencies (fst (cOracle ex_world))
   \<and> map fst (mapCurrencies (fst (cOracle ex_world))) =
       [JStr ''usd'', JStr ''eur'', JStr ''gbp'', JStr ''btc'']
   \<and> snd (cOracle ex_world) = ex_world
   \<and> getPrice ex_srv_eur2 ''eur'' (cOracle ex_world) = (Inr (JNum 0), cOracle ex_world)
   \<and> getCachedPrice ''EUR'' (fst (cOracle ex_world)) = JNum 0"
proof -
  note t = cOracle_is_disabled_from_the_start
    [where w = ex_world and srv = ex_srv_eur2 and c = "''eur''" and calls = "[]"]
  note u = cOracle_is_disabled_from_the_start
    [where w = ex_world and srv = ex_srv_eur2 and c = "''EUR''" and calls = "[]"]
  from t have c: "cOracle ex_world = Oracle_new ex_world"
    and n: "Oracle_new ex_world =
       (\<lparr>mapCurrencies =
           [(JStr ''usd'', fallback_record ''usd'' (clock_ms ex_world div 1000)),
            (JStr ''eur'', fallback_record ''eur'' (clock_ms ex_world div 1000)),
            (JStr ''gbp'', fallback_record ''gbp'' (clock_ms ex_world div 1000)),
            (JStr ''btc'', fallback_record ''btc'' (clock_ms ex_world div 1000))],
         fLoadedCurrencies = True, nOracleFailures = 0, fOracleDisabled = True\<rparr>, ex_world)"
    and p: "getPrice ex_srv_eur2 ''eur'' (Oracle_new ex_world) = (Inr (JNum 0), Oracle_new ex_world)"
    by blast+
  from u have q: "getCachedPrice ''EUR'' (fst (Oracle_new ex_world)) = JNum 0"
    by blast
  have flags: "fOracleDisabled (fst (cOracle ex_world))" "fLoadedCurrencies (fst (cOracle ex_world))"
    "map fst (mapCurrencies (fst (cOracle ex_world))) =
       [JStr ''usd'', JStr ''eur'', JStr ''gbp'', JStr ''btc'']"
    "snd (cOracle ex_world) = ex_world"
    unfolding c n by simp_all
  from flags p q show ?thesis
    unfolding c by simp
qed

end
